theory Spec2Isabelle
  imports Main
begin

section \<open>Data model\<close>

text \<open>
  The page component \<^verbatim>\<open>IDEContent\<close> of \<^verbatim>\<open>src/pages/Index.tsx\<close> owns two pieces of local
  state, the handle \<^verbatim>\<open>workspaceRef\<close> and the remount counter \<^verbatim>\<open>blocklyKey\<close>, two effects
  that arm browser timers, and four handlers that call into the context obtained from
  \<^verbatim>\<open>useIDE()\<close>. The context provider itself is not part of the file, so the handlers
  take the context operations as a parameter.

  A project is the record the context hands out as \<^verbatim>\<open>currentProject\<close>; the page reads
  its \<^verbatim>\<open>name\<close> and \<^verbatim>\<open>blocklyXml\<close> fields, the remaining fields follow the persisted
  layout \<^verbatim>\<open>{ id, name, workspaceDocument, generatedSource, board }\<close>.
\<close>

record project =
  proj_id :: string
  proj_name :: string
  blocklyXml :: string
  proj_code :: string
  proj_board :: string

datatype error = NotFound | PersistenceFailure

text \<open>
  The operations destructured from \<^verbatim>\<open>useIDE()\<close> (lines 17-28), over an arbitrary
  context state \<open>'c\<close>. An \<^verbatim>\<open>async\<close> operation either resolves with the next context
  state or rejects with an error; \<^verbatim>\<open>addConsoleMessage\<close> is synchronous.
  \<open>saveProjectRef\<close> stands for the identity of the \<^verbatim>\<open>saveProject\<close> callback, which
  React compares when it decides whether \<^verbatim>\<open>handleSave\<close> has changed.
\<close>

record 'c ide_context =
  saveProject :: "string \<Rightarrow> string \<Rightarrow> 'c \<Rightarrow> error + 'c"
  createNewProject :: "string \<Rightarrow> string \<Rightarrow> string \<Rightarrow> 'c \<Rightarrow> error + 'c"
  openProject :: "string \<Rightarrow> 'c \<Rightarrow> error + 'c"
  importProject :: "string \<Rightarrow> string \<Rightarrow> string \<Rightarrow> 'c \<Rightarrow> error + 'c"
  addConsoleMessage :: "string \<Rightarrow> string \<Rightarrow> 'c \<Rightarrow> 'c"
  currentProject :: "'c \<Rightarrow> project option"
  generatedCode :: "'c \<Rightarrow> string"
  saveProjectRef :: "'c \<Rightarrow> nat"

text \<open>
  What the page reads from the browser at the moment of an event: whether
  \<^verbatim>\<open>document.querySelector('.blockly-container')\<close> finds an element, what
  \<^verbatim>\<open>Blockly.getMainWorkspace()\<close> returns, and the text that
  \<^verbatim>\<open>Blockly.Xml.domToText(Blockly.Xml.workspaceToDom(w))\<close> yields for a workspace \<open>w\<close>.
  Workspaces are referred to by handle (a number), since the workspace behind a handle
  changes as the user edits.
\<close>

record page =
  container :: bool
  mainWorkspace :: "nat option"
  workspaceText :: "nat \<Rightarrow> string"

datatype task = CheckWorkspace | AutoSave

record timer =
  timer_id :: nat
  fires_at :: nat
  period :: "nat option"
  timer_task :: task

text \<open>
  The state of the mounted component together with the browser's clock (in ms) and timer
  table. \<open>checkTimer\<close> and \<open>autoSaveInterval\<close> are the ids captured by the cleanup
  closures of the two effects (lines 48 and 91).
\<close>

record 'c ide_state =
  ctxState :: 'c
  workspaceRef :: "nat option"
  blocklyKey :: nat
  clock :: nat
  timers :: "timer list"
  nextTimerId :: nat
  checkTimer :: "nat option"
  autoSaveInterval :: "nat option"

section \<open>Reading the workspace and the handlers\<close>

text \<open>Lines 51-57. A non-null handle is truthy; without one the result is the empty string.\<close>

definition getWorkspaceXml :: "page \<Rightarrow> 'c ide_state \<Rightarrow> string" where
  "getWorkspaceXml pg s =
     (case workspaceRef s of
        Some w \<Rightarrow> workspaceText pg w
      | None \<Rightarrow> [])"

text \<open>Awaiting a context operation: a rejection leaves the handler at once.\<close>

definition await :: "error + 'c \<Rightarrow> ('c \<Rightarrow> error + 'c ide_state) \<Rightarrow> error + 'c ide_state" where
  "await r k = (case r of Inl e \<Rightarrow> Inl e | Inr c \<Rightarrow> k c)"

text \<open>Lines 59-64. \<^verbatim>\<open>if (xml)\<close> holds exactly for a non-empty string.\<close>

definition handleSave :: "'c ide_context \<Rightarrow> page \<Rightarrow> 'c ide_state \<Rightarrow> error + 'c ide_state" where
  "handleSave ctx pg s =
     (let xml = getWorkspaceXml pg s in
      if xml \<noteq> [] then
        await (saveProject ctx xml (generatedCode ctx (ctxState s)) (ctxState s))
          (\<lambda>c. Inr (s\<lparr>ctxState := c\<rparr>))
      else Inr s)"

text \<open>Lines 66-69. \<^verbatim>\<open>getWorkspaceXml() || ''\<close> replaces a falsy (empty) result by \<^verbatim>\<open>''\<close>.\<close>

definition handleNewProject ::
  "'c ide_context \<Rightarrow> page \<Rightarrow> string \<Rightarrow> 'c ide_state \<Rightarrow> error + 'c ide_state" where
  "handleNewProject ctx pg nm s =
     (let xml = (if getWorkspaceXml pg s \<noteq> [] then getWorkspaceXml pg s else []) in
      await (createNewProject ctx nm xml (generatedCode ctx (ctxState s)) (ctxState s))
        (\<lambda>c. Inr (s\<lparr>ctxState := c\<rparr>)))"

text \<open>Lines 71-76.\<close>

definition handleOpenProject :: "'c ide_context \<Rightarrow> string \<Rightarrow> 'c ide_state \<Rightarrow> error + 'c ide_state" where
  "handleOpenProject ctx i s =
     await (openProject ctx i (ctxState s))
       (\<lambda>c. Inr (s\<lparr>ctxState := addConsoleMessage ctx ''info'' ''Proyecto cargado correctamente'' c,
                   blocklyKey := blocklyKey s + 1\<rparr>))"

text \<open>Lines 78-82.\<close>

definition handleImportProject ::
  "'c ide_context \<Rightarrow> string \<Rightarrow> string \<Rightarrow> string \<Rightarrow> 'c ide_state \<Rightarrow> error + 'c ide_state" where
  "handleImportProject ctx xml nm brd s =
     await (importProject ctx xml nm brd (ctxState s))
       (\<lambda>c. Inr (s\<lparr>ctxState := c, blocklyKey := blocklyKey s + 1\<rparr>))"

section \<open>Timers and effects\<close>

text \<open>
  \<^verbatim>\<open>setTimeout\<close>/\<^verbatim>\<open>setInterval\<close> enter a timer under a fresh id and return the id;
  \<^verbatim>\<open>clearTimeout\<close>/\<^verbatim>\<open>clearInterval\<close> drop the timer with the given id, if any.
\<close>

definition setTimeout :: "task \<Rightarrow> nat \<Rightarrow> 'c ide_state \<Rightarrow> nat \<times> 'c ide_state" where
  "setTimeout tk delay s =
     (nextTimerId s,
      s\<lparr>timers := timers s @
           [\<lparr>timer_id = nextTimerId s, fires_at = clock s + delay, period = None, timer_task = tk\<rparr>],
        nextTimerId := nextTimerId s + 1\<rparr>)"

definition setInterval :: "task \<Rightarrow> nat \<Rightarrow> 'c ide_state \<Rightarrow> nat \<times> 'c ide_state" where
  "setInterval tk delay s =
     (nextTimerId s,
      s\<lparr>timers := timers s @
           [\<lparr>timer_id = nextTimerId s, fires_at = clock s + delay, period = Some delay,
             timer_task = tk\<rparr>],
        nextTimerId := nextTimerId s + 1\<rparr>)"

definition clearTimeout :: "nat \<Rightarrow> 'c ide_state \<Rightarrow> 'c ide_state" where
  "clearTimeout i s = s\<lparr>timers := filter (\<lambda>t. timer_id t \<noteq> i) (timers s)\<rparr>"

abbreviation clearInterval :: "nat \<Rightarrow> 'c ide_state \<Rightarrow> 'c ide_state" where
  "clearInterval \<equiv> clearTimeout"

text \<open>Lines 37-45: the delayed check. The handle is written only when both lookups succeed.\<close>

definition checkWorkspace :: "page \<Rightarrow> 'c ide_state \<Rightarrow> 'c ide_state" where
  "checkWorkspace pg s =
     (if container pg then
        (case mainWorkspace pg of
           Some w \<Rightarrow> s\<lparr>workspaceRef := Some w\<rparr>
         | None \<Rightarrow> s)
      else s)"

text \<open>Lines 47-48: body and cleanup of the effect that depends on \<^verbatim>\<open>blocklyKey\<close>.\<close>

definition checkWorkspaceEffect :: "'c ide_state \<Rightarrow> 'c ide_state" where
  "checkWorkspaceEffect s =
     (let (i, s') = setTimeout CheckWorkspace 500 s in s'\<lparr>checkTimer := Some i\<rparr>)"

definition checkWorkspaceCleanup :: "'c ide_state \<Rightarrow> 'c ide_state" where
  "checkWorkspaceCleanup s = (case checkTimer s of Some i \<Rightarrow> clearTimeout i s | None \<Rightarrow> s)"

text \<open>
  Lines 86-90: the interval callback. \<^verbatim>\<open>handleSave()\<close> is not awaited, so a rejection
  is lost and the callback itself never fails.
\<close>

definition autoSaveTick :: "'c ide_context \<Rightarrow> page \<Rightarrow> 'c ide_state \<Rightarrow> 'c ide_state" where
  "autoSaveTick ctx pg s =
     (if currentProject ctx (ctxState s) \<noteq> None then
        (case handleSave ctx pg s of Inl e \<Rightarrow> s | Inr s' \<Rightarrow> s')
      else s)"

text \<open>Lines 86 and 91: body and cleanup of the auto-save effect.\<close>

definition autoSaveEffect :: "'c ide_state \<Rightarrow> 'c ide_state" where
  "autoSaveEffect s =
     (let (i, s') = setInterval AutoSave 30000 s in s'\<lparr>autoSaveInterval := Some i\<rparr>)"

definition autoSaveCleanup :: "'c ide_state \<Rightarrow> 'c ide_state" where
  "autoSaveCleanup s =
     (case autoSaveInterval s of Some i \<Rightarrow> clearInterval i s | None \<Rightarrow> s)"

text \<open>
  The dependency lists: \<^verbatim>\<open>[blocklyKey]\<close> (line 49) and \<^verbatim>\<open>[currentProject, handleSave]\<close>
  (line 92), where \<^verbatim>\<open>handleSave\<close> is rebuilt when \<^verbatim>\<open>saveProject\<close> or
  \<^verbatim>\<open>generatedCode\<close> changes (line 64; \<^verbatim>\<open>getWorkspaceXml\<close> has no dependencies).
  Dependencies are compared by value here; React compares objects by reference, so it
  re-runs an effect at least as often.
\<close>

definition checkDepsChanged :: "'c ide_state \<Rightarrow> 'c ide_state \<Rightarrow> bool" where
  "checkDepsChanged old s = (blocklyKey s \<noteq> blocklyKey old)"

definition autoSaveDepsChanged :: "'c ide_context \<Rightarrow> 'c ide_state \<Rightarrow> 'c ide_state \<Rightarrow> bool" where
  "autoSaveDepsChanged ctx old s =
     (currentProject ctx (ctxState s) \<noteq> currentProject ctx (ctxState old)
      \<or> saveProjectRef ctx (ctxState s) \<noteq> saveProjectRef ctx (ctxState old)
      \<or> generatedCode ctx (ctxState s) \<noteq> generatedCode ctx (ctxState old))"

text \<open>
  A render after a state change: every effect whose dependencies differ from the previous
  render runs its cleanup and then its body, in the order the effects are declared.
\<close>

definition commit :: "'c ide_context \<Rightarrow> 'c ide_state \<Rightarrow> 'c ide_state \<Rightarrow> 'c ide_state" where
  "commit ctx old s =
     (let s1 = (if checkDepsChanged old s then checkWorkspaceEffect (checkWorkspaceCleanup s) else s)
      in if autoSaveDepsChanged ctx old s then autoSaveEffect (autoSaveCleanup s1) else s1)"

text \<open>The first render: nothing is mounted yet and both effects run.\<close>

definition mount :: "'c \<Rightarrow> 'c ide_state" where
  "mount c =
     autoSaveEffect (checkWorkspaceEffect
       \<lparr>ctxState = c, workspaceRef = None, blocklyKey = 0, clock = 0, timers = [],
        nextTimerId = 0, checkTimer = None, autoSaveInterval = None\<rparr>)"

section \<open>The event loop\<close>

text \<open>
  What can happen to the mounted page: the toolbar calls one of the four handlers, another
  component changes the context state, time passes, or the browser runs a timer that is
  due. Browsers may run a timer late, never early.
\<close>

datatype 'c event =
    Save
  | NewProject string
  | OpenProject string
  | ImportProject string string string
  | External 'c
  | Wait nat
  | Fire

fun earliest :: "timer list \<Rightarrow> timer option" where
  "earliest [] = None"
| "earliest (t # ts) =
     (case earliest ts of
        None \<Rightarrow> Some t
      | Some u \<Rightarrow> if fires_at t \<le> fires_at u then Some t else Some u)"

definition nextDue :: "'c ide_state \<Rightarrow> timer option" where
  "nextDue s = earliest (filter (\<lambda>t. fires_at t \<le> clock s) (timers s))"

text \<open>A one-shot timer leaves the table when it runs; an interval is entered again.\<close>

definition reschedule :: "timer \<Rightarrow> 'c ide_state \<Rightarrow> 'c ide_state" where
  "reschedule tm s =
     (case period tm of
        None \<Rightarrow> clearTimeout (timer_id tm) s
      | Some p \<Rightarrow>
          s\<lparr>timers := map (\<lambda>t. if timer_id t = timer_id tm then t\<lparr>fires_at := clock s + p\<rparr> else t)
                         (timers s)\<rparr>)"

definition runTask :: "'c ide_context \<Rightarrow> page \<Rightarrow> task \<Rightarrow> 'c ide_state \<Rightarrow> 'c ide_state" where
  "runTask ctx pg tk s =
     (case tk of
        CheckWorkspace \<Rightarrow> checkWorkspace pg s
      | AutoSave \<Rightarrow> autoSaveTick ctx pg s)"

text \<open>A handler that rejects leaves the page as it was; otherwise the page re-renders.\<close>

definition settle :: "'c ide_context \<Rightarrow> 'c ide_state \<Rightarrow> error + 'c ide_state \<Rightarrow> 'c ide_state" where
  "settle ctx old r = (case r of Inl e \<Rightarrow> old | Inr s \<Rightarrow> commit ctx old s)"

fun step :: "'c ide_context \<Rightarrow> page \<times> 'c event \<Rightarrow> 'c ide_state \<Rightarrow> 'c ide_state" where
  "step ctx (pg, Save) s = settle ctx s (handleSave ctx pg s)"
| "step ctx (pg, NewProject nm) s = settle ctx s (handleNewProject ctx pg nm s)"
| "step ctx (pg, OpenProject i) s = settle ctx s (handleOpenProject ctx i s)"
| "step ctx (pg, ImportProject xml nm brd) s = settle ctx s (handleImportProject ctx xml nm brd s)"
| "step ctx (pg, External c) s = commit ctx s (s\<lparr>ctxState := c\<rparr>)"
| "step ctx (pg, Wait d) s = s\<lparr>clock := clock s + d\<rparr>"
| "step ctx (pg, Fire) s =
     (case nextDue s of
        None \<Rightarrow> s
      | Some tm \<Rightarrow> commit ctx s (runTask ctx pg (timer_task tm) (reschedule tm s)))"

fun run :: "'c ide_context \<Rightarrow> (page \<times> 'c event) list \<Rightarrow> 'c ide_state \<Rightarrow> 'c ide_state" where
  "run ctx [] s = s"
| "run ctx (e # es) s = run ctx es (step ctx e s)"

section \<open>The context provider\<close>

text \<open>
  Modelled from the spec: the session state behind \<^verbatim>\<open>useIDE()\<close>. The provider
  (\<^verbatim>\<open>@/contexts/IDEContext\<close>) is imported by the page but is not among the sources.
  The session holds the active project or none, the generated source text, the selected
  board, the visible output tab, the console sequence, and the project store. \<open>oplog\<close>
  records every store operation in order, so that "no store operation" and "written
  again" can be stated.
\<close>

datatype tab = CodeTab | ConsoleTab | SerialTab

datatype store_op =
    StoreCreate project
  | StoreFetch string
  | StoreUpdate string string string

record session =
  active :: "project option"
  generated :: string
  board_sel :: string
  tab_sel :: tab
  console :: "(string \<times> string) list"
  store :: "string \<rightharpoonup> project"
  oplog :: "store_op list"

text \<open>
  Modelled from the spec: \<^verbatim>\<open>saveProject\<close> of the missing context provider. With an
  active project it writes the (workspace document, generated source) pair to the store
  under the active project's id; the active project in memory stays as it is and no
  console message is emitted. The store is a map, whose writes cannot fail. Without an
  active project (outside the stated precondition) nothing is written.
\<close>

definition ctx_saveProject :: "string \<Rightarrow> string \<Rightarrow> session \<Rightarrow> error + session" where
  "ctx_saveProject xml code c =
     (case active c of
        None \<Rightarrow> Inr c
      | Some p \<Rightarrow>
          Inr (c\<lparr>store := (store c)(proj_id p \<mapsto> p\<lparr>blocklyXml := xml, proj_code := code\<rparr>),
                 oplog := oplog c @ [StoreUpdate (proj_id p) xml code]\<rparr>))"

text \<open>
  Modelled from the spec: \<^verbatim>\<open>createNewProject\<close> of the missing context provider. It
  always succeeds, builds a project with a freshly minted id, makes it the active project
  and writes it to the store at once. How ids are minted is not specified; \<open>mint\<close>
  is a parameter that picks the new id from the store.
\<close>

definition ctx_createNewProject ::
  "((string \<rightharpoonup> project) \<Rightarrow> string) \<Rightarrow> string \<Rightarrow> string \<Rightarrow> string \<Rightarrow> session \<Rightarrow> error + session" where
  "ctx_createNewProject mint nm xml code c =
     (let p = \<lparr>proj_id = mint (store c), proj_name = nm, blocklyXml = xml, proj_code = code,
               proj_board = board_sel c\<rparr>
      in Inr (c\<lparr>active := Some p,
                 store := (store c)(proj_id p \<mapsto> p),
                 oplog := oplog c @ [StoreCreate p]\<rparr>))"

text \<open>
  Modelled from the spec: \<^verbatim>\<open>openProject\<close> of the missing context provider. It fetches
  the project by id, fails with \<open>NotFound\<close> when the store has none, and otherwise
  replaces the active project wholesale. The console message that confirms the load is
  emitted by the caller, \<^verbatim>\<open>handleOpenProject\<close> (line 75).
\<close>

definition ctx_openProject :: "string \<Rightarrow> session \<Rightarrow> error + session" where
  "ctx_openProject i c =
     (case store c i of
        None \<Rightarrow> Inl NotFound
      | Some p \<Rightarrow> Inr (c\<lparr>active := Some p, oplog := oplog c @ [StoreFetch i]\<rparr>))"

text \<open>
  Modelled from the spec: \<^verbatim>\<open>importProject\<close> of the missing context provider, a variant
  of project creation from the supplied document that sets the board selection and takes
  the same persistence path.
\<close>

definition ctx_importProject ::
  "((string \<rightharpoonup> project) \<Rightarrow> string) \<Rightarrow> string \<Rightarrow> string \<Rightarrow> string \<Rightarrow> session \<Rightarrow> error + session" where
  "ctx_importProject mint xml nm brd c =
     ctx_createNewProject mint nm xml (generated c) (c\<lparr>board_sel := brd\<rparr>)"

text \<open>
  Modelled from the spec: \<^verbatim>\<open>addConsoleMessage\<close> of the missing context provider appends
  to the console sequence, never fails and never drops an earlier message.
\<close>

definition ctx_addConsoleMessage :: "string \<Rightarrow> string \<Rightarrow> session \<Rightarrow> session" where
  "ctx_addConsoleMessage lvl txt c = c\<lparr>console := console c @ [(lvl, txt)]\<rparr>"

text \<open>
  Modelled from the spec: the value \<^verbatim>\<open>useIDE()\<close> returns, assembled from the operations
  above. The specification does not say when the provider rebuilds its callbacks; the
  identity of \<^verbatim>\<open>saveProject\<close> is kept fixed.
\<close>

definition ide_spec :: "((string \<rightharpoonup> project) \<Rightarrow> string) \<Rightarrow> session ide_context" where
  "ide_spec mint =
     \<lparr>saveProject = ctx_saveProject,
      createNewProject = ctx_createNewProject mint,
      openProject = ctx_openProject,
      importProject = ctx_importProject mint,
      addConsoleMessage = ctx_addConsoleMessage,
      currentProject = active,
      generatedCode = generated,
      saveProjectRef = (\<lambda>c. 0)\<rparr>"

text \<open>Every record of the store is filed under its own id.\<close>

definition store_wf :: "(string \<rightharpoonup> project) \<Rightarrow> bool" where
  "store_wf st = (\<forall>k p. st k = Some p \<longrightarrow> proj_id p = k)"

section \<open>Invariants of the timer table\<close>

definition checkTimers :: "'c ide_state \<Rightarrow> timer list" where
  "checkTimers s = filter (\<lambda>t. timer_task t = CheckWorkspace) (timers s)"

definition autoSaveTimers :: "'c ide_state \<Rightarrow> timer list" where
  "autoSaveTimers s = filter (\<lambda>t. timer_task t = AutoSave) (timers s)"

text \<open>
  Timer ids are unique and were all handed out already, also those the two cleanups hold,
  and the cleanups hold different ids.
\<close>

definition ids_ok :: "'c ide_state \<Rightarrow> bool" where
  "ids_ok s =
     (distinct (map timer_id (timers s))
      \<and> (\<forall>t \<in> set (timers s). timer_id t < nextTimerId s)
      \<and> (case checkTimer s of
            None \<Rightarrow> True
          | Some i \<Rightarrow> i < nextTimerId s \<and> autoSaveInterval s \<noteq> Some i)
      \<and> (case autoSaveInterval s of None \<Rightarrow> True | Some i \<Rightarrow> i < nextTimerId s))"

text \<open>
  Every pending check is the one the cleanup of the first effect would clear, and it runs
  once.
\<close>

definition checks_ok :: "'c ide_state \<Rightarrow> bool" where
  "checks_ok s =
     (\<forall>t \<in> set (timers s). timer_task t = CheckWorkspace \<longrightarrow>
        checkTimer s = Some (timer_id t) \<and> period t = None)"

text \<open>
  There is exactly one auto-save interval, it is the one the cleanup of the second effect
  would clear, and its period is 30000 ms.
\<close>

definition autosave_ok :: "'c ide_state \<Rightarrow> bool" where
  "autosave_ok s =
     (map (\<lambda>t. (Some (timer_id t), period t)) (autoSaveTimers s)
        = [(autoSaveInterval s, Some 30000)])"

definition timers_wf :: "'c ide_state \<Rightarrow> bool" where
  "timers_wf s = (ids_ok s \<and> checks_ok s \<and> autosave_ok s)"

text \<open>No pending check is due before the time \<open>T\<close>, and the clock has reached \<open>T - 500\<close>.\<close>

definition checks_after :: "nat \<Rightarrow> 'c ide_state \<Rightarrow> bool" where
  "checks_after T s =
     (T \<le> clock s + 500 \<and> (\<forall>t \<in> set (timers s). timer_task t = CheckWorkspace \<longrightarrow> T \<le> fires_at t))"

text \<open>The event runs the delayed check: a timer with that task is the next one due.\<close>

definition firesCheck :: "'c event \<Rightarrow> 'c ide_state \<Rightarrow> bool" where
  "firesCheck ev s =
     (case ev of
        Fire \<Rightarrow> (case nextDue s of Some tm \<Rightarrow> timer_task tm = CheckWorkspace | None \<Rightarrow> False)
      | _ \<Rightarrow> False)"

text \<open>No event of the sequence, run from \<open>s\<close>, runs the delayed check.\<close>

fun quiet :: "'c ide_context \<Rightarrow> (page \<times> 'c event) list \<Rightarrow> 'c ide_state \<Rightarrow> bool" where
  "quiet ctx [] s = True"
| "quiet ctx (e # es) s = (\<not> firesCheck (snd e) s \<and> quiet ctx es (step ctx e s))"

section \<open>Sequences of create and open calls\<close>

definition createOrOpen :: "page \<times> 'c event \<Rightarrow> bool" where
  "createOrOpen e = (case snd e of NewProject nm \<Rightarrow> True | OpenProject i \<Rightarrow> True | _ \<Rightarrow> False)"

text \<open>
  The id a create or open call establishes when it completes, in the words of the
  specification: a create call mints a fresh id, an open call establishes the id it was
  asked for, provided the store has it. A call that fails establishes nothing.
\<close>

fun establishes :: "((string \<rightharpoonup> project) \<Rightarrow> string) \<Rightarrow> session \<Rightarrow> session event \<Rightarrow> string option" where
  "establishes mint c (NewProject nm) = Some (mint (store c))"
| "establishes mint c (OpenProject i) = (if store c i = None then None else Some i)"
| "establishes mint c _ = None"

text \<open>The id established by the most recently completed call of a sequence, \<open>cur\<close> if none.\<close>

fun lastEstablished ::
  "((string \<rightharpoonup> project) \<Rightarrow> string) \<Rightarrow> (page \<times> session event) list \<Rightarrow> session ide_state
     \<Rightarrow> string option \<Rightarrow> string option" where
  "lastEstablished mint [] s cur = cur"
| "lastEstablished mint (e # es) s cur =
     lastEstablished mint es (step (ide_spec mint) e s)
       (case establishes mint (ctxState s) (snd e) of Some i \<Rightarrow> Some i | None \<Rightarrow> cur)"

definition activeId :: "session ide_state \<Rightarrow> string option" where
  "activeId s = map_option proj_id (active (ctxState s))"

section \<open>Sample values\<close>

definition blink :: project where
  "blink = \<lparr>proj_id = ''p1'', proj_name = ''Blink'', blocklyXml = ''<doc/>'',
            proj_code = ''void setup(){}'', proj_board = ''uno''\<rparr>"

definition fresh_session :: session where
  "fresh_session = \<lparr>active = None, generated = ''void setup(){}'', board_sel = ''uno'',
     tab_sel = CodeTab, console = [], store = Map.empty, oplog = []\<rparr>"

definition blink_session :: session where
  "blink_session = fresh_session\<lparr>active := Some blink, store := [''p1'' \<mapsto> blink]\<rparr>"

definition no_surface :: page where
  "no_surface = \<lparr>container = False, mainWorkspace = None, workspaceText = (\<lambda>w. [])\<rparr>"

definition surface :: page where
  "surface = \<lparr>container = True, mainWorkspace = Some 7, workspaceText = (\<lambda>w. ''<xml/>'')\<rparr>"

text \<open>
  The page after a re-mount: the main workspace is now 8, while the workspace 7 of the
  previous surface still serialises to its old document.
\<close>

definition new_surface :: page where
  "new_surface = \<lparr>container = True, mainWorkspace = Some 8,
     workspaceText = (\<lambda>w. if w = 7 then ''<old/>'' else ''<new/>'')\<rparr>"

definition mint1 :: "(string \<rightharpoonup> project) \<Rightarrow> string" where
  "mint1 st = (if st ''p1'' = None then ''p1'' else ''p2'')"

section \<open>Frame properties and preservation of the timer invariants\<close>

lemmas effect_defs = checkWorkspaceEffect_def checkWorkspaceCleanup_def
      autoSaveEffect_def autoSaveCleanup_def setTimeout_def setInterval_def clearTimeout_def

lemma commit_fields [simp]:
  "ctxState (commit ctx old s) = ctxState s"
  "workspaceRef (commit ctx old s) = workspaceRef s"
  "blocklyKey (commit ctx old s) = blocklyKey s"
  "clock (commit ctx old s) = clock s"
  by (simp_all add: commit_def Let_def effect_defs split: option.splits)

text \<open>The handlers touch the context state and the remount counter only.\<close>

lemma handleSave_frame:
  "handleSave ctx pg s = Inr s' \<Longrightarrow>
     timers s' = timers s \<and> nextTimerId s' = nextTimerId s \<and> checkTimer s' = checkTimer s
     \<and> autoSaveInterval s' = autoSaveInterval s \<and> clock s' = clock s
     \<and> workspaceRef s' = workspaceRef s \<and> blocklyKey s' = blocklyKey s"
  by (auto simp: handleSave_def await_def Let_def split: if_splits sum.splits)

lemma handleNewProject_frame:
  "handleNewProject ctx pg nm s = Inr s' \<Longrightarrow>
     timers s' = timers s \<and> nextTimerId s' = nextTimerId s \<and> checkTimer s' = checkTimer s
     \<and> autoSaveInterval s' = autoSaveInterval s \<and> clock s' = clock s
     \<and> workspaceRef s' = workspaceRef s \<and> blocklyKey s' = blocklyKey s"
  by (auto simp: handleNewProject_def await_def Let_def split: if_splits sum.splits)

lemma handleOpenProject_frame:
  "handleOpenProject ctx i s = Inr s' \<Longrightarrow>
     timers s' = timers s \<and> nextTimerId s' = nextTimerId s \<and> checkTimer s' = checkTimer s
     \<and> autoSaveInterval s' = autoSaveInterval s \<and> clock s' = clock s
     \<and> workspaceRef s' = workspaceRef s \<and> blocklyKey s' = blocklyKey s + 1"
  by (auto simp: handleOpenProject_def await_def Let_def split: if_splits sum.splits)

lemma handleImportProject_frame:
  "handleImportProject ctx xml nm brd s = Inr s' \<Longrightarrow>
     timers s' = timers s \<and> nextTimerId s' = nextTimerId s \<and> checkTimer s' = checkTimer s
     \<and> autoSaveInterval s' = autoSaveInterval s \<and> clock s' = clock s
     \<and> workspaceRef s' = workspaceRef s \<and> blocklyKey s' = blocklyKey s + 1"
  by (auto simp: handleImportProject_def await_def Let_def split: if_splits sum.splits)

lemma autoSaveTick_frame:
  "timers (autoSaveTick ctx pg s) = timers s \<and> nextTimerId (autoSaveTick ctx pg s) = nextTimerId s
   \<and> checkTimer (autoSaveTick ctx pg s) = checkTimer s
     \<and> autoSaveInterval (autoSaveTick ctx pg s) = autoSaveInterval s
     \<and> clock (autoSaveTick ctx pg s) = clock s
     \<and> workspaceRef (autoSaveTick ctx pg s) = workspaceRef s
     \<and> blocklyKey (autoSaveTick ctx pg s) = blocklyKey s"
  using handleSave_frame [of ctx pg s]
  by (auto simp: autoSaveTick_def split: sum.splits)

lemma checkWorkspace_frame:
  "timers (checkWorkspace pg s) = timers s \<and> nextTimerId (checkWorkspace pg s) = nextTimerId s
   \<and> checkTimer (checkWorkspace pg s) = checkTimer s
     \<and> autoSaveInterval (checkWorkspace pg s) = autoSaveInterval s
     \<and> clock (checkWorkspace pg s) = clock s
     \<and> ctxState (checkWorkspace pg s) = ctxState s
     \<and> blocklyKey (checkWorkspace pg s) = blocklyKey s"
  by (auto simp: checkWorkspace_def split: option.splits)


lemma timers_wf_cong:
  "timers s' = timers s \<Longrightarrow> nextTimerId s' = nextTimerId s \<Longrightarrow> checkTimer s' = checkTimer s
     \<Longrightarrow> autoSaveInterval s' = autoSaveInterval s \<Longrightarrow> timers_wf s' = timers_wf s"
  by (simp add: timers_wf_def ids_ok_def checks_ok_def autosave_ok_def autoSaveTimers_def
      split: option.splits)

lemma autosave_okD:
  "autosave_ok s \<Longrightarrow>
     \<exists>t. autoSaveTimers s = [t] \<and> autoSaveInterval s = Some (timer_id t) \<and> period t = Some 30000
         \<and> timer_task t = AutoSave"
proof -
  assume a: "autosave_ok s"
  then obtain t where t: "autoSaveTimers s = [t]"
    by (cases "autoSaveTimers s") (auto simp: autosave_ok_def)
  then have "t \<in> set (filter (\<lambda>t. timer_task t = AutoSave) (timers s))"
    by (simp add: autoSaveTimers_def)
  then have "timer_task t = AutoSave" by simp
  with a t show ?thesis by (auto simp: autosave_ok_def)
qed

lemma rearmCheck_ids: "ids_ok s \<Longrightarrow> ids_ok (checkWorkspaceEffect (checkWorkspaceCleanup s))"
  by (auto simp: ids_ok_def effect_defs distinct_map_filter split: option.splits)

lemma rearmCheck_checks: "checks_ok s \<Longrightarrow> checks_ok (checkWorkspaceEffect (checkWorkspaceCleanup s))"
  by (auto simp: checks_ok_def effect_defs split: option.splits)

lemma rearmCheck_autosave:
  assumes "ids_ok s" "autosave_ok s"
  shows "autosave_ok (checkWorkspaceEffect (checkWorkspaceCleanup s))"
proof -
  from autosave_okD [OF assms(2)] obtain t where
    t: "autoSaveTimers s = [t]" "autoSaveInterval s = Some (timer_id t)" "period t = Some 30000"
    by blast
  have "autoSaveTimers (checkWorkspaceEffect (checkWorkspaceCleanup s)) =
        (case checkTimer s of None \<Rightarrow> autoSaveTimers s
         | Some i \<Rightarrow> filter (\<lambda>t. timer_id t \<noteq> i) (autoSaveTimers s))"
    by (auto simp: autoSaveTimers_def effect_defs split: option.splits intro: filter_cong)
  also have "\<dots> = [t]"
    using assms(1) t by (auto simp: ids_ok_def split: option.splits)
  finally show ?thesis using t
    by (simp add: autosave_ok_def effect_defs split: option.splits)
qed

lemma rearmCheck_wf: "timers_wf s \<Longrightarrow> timers_wf (checkWorkspaceEffect (checkWorkspaceCleanup s))"
  by (simp add: timers_wf_def rearmCheck_ids rearmCheck_checks rearmCheck_autosave)

lemma rearmAuto_ids: "ids_ok s \<Longrightarrow> ids_ok (autoSaveEffect (autoSaveCleanup s))"
  by (auto simp: ids_ok_def effect_defs distinct_map_filter split: option.splits)

lemma rearmAuto_checks: "checks_ok s \<Longrightarrow> checks_ok (autoSaveEffect (autoSaveCleanup s))"
  by (auto simp: checks_ok_def effect_defs split: option.splits)

lemma rearmAuto_timers:
  assumes "autosave_ok s"
  shows "autoSaveTimers (autoSaveEffect (autoSaveCleanup s)) =
           [\<lparr>timer_id = nextTimerId s, fires_at = clock s + 30000, period = Some 30000,
             timer_task = AutoSave\<rparr>]
         \<and> autoSaveInterval (autoSaveEffect (autoSaveCleanup s)) = Some (nextTimerId s)"
proof -
  from autosave_okD [OF assms] obtain t where
    t: "autoSaveTimers s = [t]" "autoSaveInterval s = Some (timer_id t)"
    by blast
  have "filter (\<lambda>u. timer_task u = AutoSave) (filter (\<lambda>u. timer_id u \<noteq> timer_id t) (timers s))
        = filter (\<lambda>u. timer_id u \<noteq> timer_id t) (autoSaveTimers s)"
    by (auto simp: autoSaveTimers_def intro: filter_cong)
  with t show ?thesis
    by (simp add: autoSaveTimers_def effect_defs)
qed

lemma rearmAuto_autosave: "autosave_ok s \<Longrightarrow> autosave_ok (autoSaveEffect (autoSaveCleanup s))"
  using rearmAuto_timers [of s] by (simp add: autosave_ok_def)

lemma rearmAuto_wf: "timers_wf s \<Longrightarrow> timers_wf (autoSaveEffect (autoSaveCleanup s))"
  by (simp add: timers_wf_def rearmAuto_ids rearmAuto_checks rearmAuto_autosave)

lemma commit_wf: "timers_wf s \<Longrightarrow> timers_wf (commit ctx old s)"
  by (simp add: commit_def Let_def rearmAuto_wf rearmCheck_wf)

lemma mount_wf: "timers_wf (mount c)"
  by (simp add: mount_def timers_wf_def ids_ok_def checks_ok_def autosave_ok_def autoSaveTimers_def
      effect_defs)

lemma earliest_mem: "earliest ts = Some t \<Longrightarrow> t \<in> set ts"
  by (induction ts arbitrary: t) (auto split: option.splits if_splits)

lemma nextDue_mem: "nextDue s = Some tm \<Longrightarrow> tm \<in> set (timers s) \<and> fires_at tm \<le> clock s"
  by (auto simp: nextDue_def dest: earliest_mem)

lemma reschedule_fields [simp]:
  "ctxState (reschedule tm s) = ctxState s"
  "workspaceRef (reschedule tm s) = workspaceRef s"
  "blocklyKey (reschedule tm s) = blocklyKey s"
  "clock (reschedule tm s) = clock s"
  "nextTimerId (reschedule tm s) = nextTimerId s"
  "checkTimer (reschedule tm s) = checkTimer s"
  "autoSaveInterval (reschedule tm s) = autoSaveInterval s"
  by (simp_all add: reschedule_def clearTimeout_def split: option.splits)

lemma timer_id_refire:
  "timer_id \<circ> (\<lambda>t. if timer_id t = i then t\<lparr>fires_at := x\<rparr> else t) = timer_id"
  by (rule ext) simp

lemma set_refire_id:
  "u \<in> set (map (\<lambda>t. if timer_id t = i then t\<lparr>fires_at := x\<rparr> else t) ts)
     \<Longrightarrow> \<exists>t \<in> set ts. timer_id u = timer_id t \<and> timer_task u = timer_task t \<and> period u = period t
           \<and> (fires_at u = fires_at t \<or> fires_at u = x)"
  by (induction ts) (auto split: if_splits)

lemma reschedule_ids: "ids_ok s \<Longrightarrow> ids_ok (reschedule tm s)"
proof (cases "period tm")
  case None
  assume "ids_ok s"
  with None show ?thesis
    by (auto simp: ids_ok_def reschedule_def clearTimeout_def distinct_map_filter
        split: option.splits)
next
  case (Some p)
  assume ok: "ids_ok s"
  have tm: "timers (reschedule tm s) =
      map (\<lambda>t. if timer_id t = timer_id tm then t\<lparr>fires_at := clock s + p\<rparr> else t) (timers s)"
    using Some by (simp add: reschedule_def)
  have "\<forall>u \<in> set (timers (reschedule tm s)). timer_id u < nextTimerId s"
    unfolding tm using ok by (auto simp: ids_ok_def dest!: set_refire_id)
  with ok show ?thesis
    unfolding ids_ok_def by (simp add: tm timer_id_refire del: set_map split: option.splits)
qed

lemma reschedule_checks: "checks_ok s \<Longrightarrow> checks_ok (reschedule tm s)"
proof (cases "period tm")
  case None
  assume "checks_ok s"
  with None show ?thesis
    by (auto simp: checks_ok_def reschedule_def clearTimeout_def)
next
  case (Some p)
  assume "checks_ok s"
  with Some show ?thesis
    by (auto simp: checks_ok_def reschedule_def simp del: set_map dest!: set_refire_id)
qed

lemma reschedule_autosave:
  assumes "timers_wf s" "tm \<in> set (timers s)"
  shows "autosave_ok (reschedule tm s)"
proof -
  from assms(1) have ok: "ids_ok s" "checks_ok s" "autosave_ok s"
    by (simp_all add: timers_wf_def)
  from autosave_okD [OF ok(3)] obtain t where
    t: "autoSaveTimers s = [t]" "autoSaveInterval s = Some (timer_id t)" "period t = Some 30000"
       "timer_task t = AutoSave"
    by blast
  show ?thesis
  proof (cases "period tm")
    case (Some p)
    have "autoSaveTimers (reschedule tm s) =
          map (\<lambda>u. if timer_id u = timer_id tm then u\<lparr>fires_at := clock s + p\<rparr> else u)
            (autoSaveTimers s)"
      using Some by (simp add: reschedule_def autoSaveTimers_def filter_map o_def if_distrib cong: if_cong)
    with t show ?thesis by (simp add: autosave_ok_def)
  next
    case None
    have "t \<in> set (autoSaveTimers s)" using t(1) by simp
    then have tin: "t \<in> set (timers s)" by (simp add: autoSaveTimers_def)
    have "timer_id tm \<noteq> timer_id t"
    proof
      assume eq: "timer_id tm = timer_id t"
      from ok(1) have "inj_on timer_id (set (timers s))"
        by (simp add: ids_ok_def distinct_map)
      with eq assms(2) tin have "tm = t" by (auto dest: inj_onD)
      with None t(3) show False by simp
    qed
    moreover have "autoSaveTimers (reschedule tm s) =
          filter (\<lambda>u. timer_id u \<noteq> timer_id tm) (autoSaveTimers s)"
      using None by (auto simp: reschedule_def clearTimeout_def autoSaveTimers_def intro: filter_cong)
    ultimately show ?thesis using t by (simp add: autosave_ok_def)
  qed
qed

lemma reschedule_wf: "timers_wf s \<Longrightarrow> tm \<in> set (timers s) \<Longrightarrow> timers_wf (reschedule tm s)"
  using reschedule_autosave [of s tm]
  by (simp add: timers_wf_def reschedule_ids reschedule_checks)

lemma runTask_wf: "timers_wf (runTask ctx pg tk s) = timers_wf s"
proof (cases tk)
  case CheckWorkspace
  have "timers_wf (checkWorkspace pg s) = timers_wf s"
    using checkWorkspace_frame [of pg s] by (intro timers_wf_cong) simp_all
  with CheckWorkspace show ?thesis by (simp add: runTask_def)
next
  case AutoSave
  have "timers_wf (autoSaveTick ctx pg s) = timers_wf s"
    using autoSaveTick_frame [of ctx pg s] by (intro timers_wf_cong) simp_all
  with AutoSave show ?thesis by (simp add: runTask_def)
qed

lemma settle_wf:
  assumes "timers_wf s"
    and "\<And>s'. r = Inr s' \<Longrightarrow> timers s' = timers s \<and> nextTimerId s' = nextTimerId s
            \<and> checkTimer s' = checkTimer s \<and> autoSaveInterval s' = autoSaveInterval s"
  shows "timers_wf (settle ctx s r)"
proof (cases r)
  case (Inl e)
  with assms(1) show ?thesis by (simp add: settle_def)
next
  case (Inr s')
  with assms(2) have "timers_wf s' = timers_wf s" by (intro timers_wf_cong) auto
  with assms(1) Inr show ?thesis by (simp add: settle_def commit_wf)
qed

lemma step_wf: "timers_wf s \<Longrightarrow> timers_wf (step ctx e s)"
proof (cases e)
  case (Pair pg ev)
  assume wf: "timers_wf s"
  show ?thesis
  proof (cases ev)
    case Save
    with Pair wf show ?thesis using handleSave_frame [of ctx pg s]
      by (auto intro!: settle_wf)
  next
    case (NewProject nm)
    with Pair wf show ?thesis using handleNewProject_frame [of ctx pg nm s]
      by (auto intro!: settle_wf)
  next
    case (OpenProject i)
    with Pair wf show ?thesis using handleOpenProject_frame [of ctx i s]
      by (auto intro!: settle_wf)
  next
    case (ImportProject xml nm brd)
    with Pair wf show ?thesis using handleImportProject_frame [of ctx xml nm brd s]
      by (auto intro!: settle_wf)
  next
    case (External c)
    have "timers_wf (s\<lparr>ctxState := c\<rparr>) = timers_wf s" by (intro timers_wf_cong) auto
    with Pair External wf show ?thesis by (simp add: commit_wf)
  next
    case (Wait d)
    have "timers_wf (s\<lparr>clock := clock s + d\<rparr>) = timers_wf s" by (intro timers_wf_cong) auto
    with Pair Wait wf show ?thesis by simp
  next
    case Fire
    with Pair wf show ?thesis
      by (auto simp: runTask_wf reschedule_wf commit_wf dest: nextDue_mem split: option.splits)
  qed
qed

lemma run_wf: "timers_wf s \<Longrightarrow> timers_wf (run ctx es s)"
  by (induction es arbitrary: s) (simp_all add: step_wf)

section \<open>The delayed check and the clock\<close>

lemma runTask_fields [simp]:
  "timers (runTask ctx pg tk s) = timers s"
  "nextTimerId (runTask ctx pg tk s) = nextTimerId s"
  "checkTimer (runTask ctx pg tk s) = checkTimer s"
  "autoSaveInterval (runTask ctx pg tk s) = autoSaveInterval s"
  "clock (runTask ctx pg tk s) = clock s"
  "blocklyKey (runTask ctx pg tk s) = blocklyKey s"
  using autoSaveTick_frame [of ctx pg s] checkWorkspace_frame [of pg s]
  by (cases tk; simp add: runTask_def)+

lemma runTask_AutoSave_ref [simp]:
  "tk \<noteq> CheckWorkspace \<Longrightarrow> workspaceRef (runTask ctx pg tk s) = workspaceRef s"
  using autoSaveTick_frame [of ctx pg s] by (cases tk) (simp_all add: runTask_def)

text \<open>What a step does to the clock, the handle and the remount counter.\<close>

lemma step_clock_mono: "clock s \<le> clock (step ctx e s)"
proof (cases e)
  case (Pair pg ev)
  show ?thesis
  proof (cases ev)
    case Save
    with Pair show ?thesis using handleSave_frame [of ctx pg s]
      by (cases "handleSave ctx pg s") (simp_all add: settle_def)
  next
    case (NewProject nm)
    with Pair show ?thesis using handleNewProject_frame [of ctx pg nm s]
      by (cases "handleNewProject ctx pg nm s") (simp_all add: settle_def)
  next
    case (OpenProject i)
    with Pair show ?thesis using handleOpenProject_frame [of ctx i s]
      by (cases "handleOpenProject ctx i s") (simp_all add: settle_def)
  next
    case (ImportProject xml nm brd)
    with Pair show ?thesis using handleImportProject_frame [of ctx xml nm brd s]
      by (cases "handleImportProject ctx xml nm brd s") (simp_all add: settle_def)
  next
    case (External c)
    with Pair show ?thesis by simp
  next
    case (Wait d)
    with Pair show ?thesis by simp
  next
    case Fire
    with Pair show ?thesis
      by (simp split: option.splits)
  qed
qed

lemma run_clock_mono: "clock s \<le> clock (run ctx es s)"
proof (induction es arbitrary: s)
  case Nil
  show ?case by simp
next
  case (Cons e es)
  have "clock s \<le> clock (step ctx e s)" by (rule step_clock_mono)
  also have "\<dots> \<le> clock (run ctx es (step ctx e s))" by (rule Cons.IH)
  finally show ?case by simp
qed

lemma step_workspaceRef:
  "\<not> firesCheck (snd e) s \<Longrightarrow> workspaceRef (step ctx e s) = workspaceRef s"
proof (cases e)
  case (Pair pg ev)
  assume nf: "\<not> firesCheck (snd e) s"
  show ?thesis
  proof (cases ev)
    case Save
    with Pair show ?thesis using handleSave_frame [of ctx pg s]
      by (cases "handleSave ctx pg s") (simp_all add: settle_def)
  next
    case (NewProject nm)
    with Pair show ?thesis using handleNewProject_frame [of ctx pg nm s]
      by (cases "handleNewProject ctx pg nm s") (simp_all add: settle_def)
  next
    case (OpenProject i)
    with Pair show ?thesis using handleOpenProject_frame [of ctx i s]
      by (cases "handleOpenProject ctx i s") (simp_all add: settle_def)
  next
    case (ImportProject xml nm brd)
    with Pair show ?thesis using handleImportProject_frame [of ctx xml nm brd s]
      by (cases "handleImportProject ctx xml nm brd s") (simp_all add: settle_def)
  next
    case (External c)
    with Pair show ?thesis by simp
  next
    case (Wait d)
    with Pair show ?thesis by simp
  next
    case Fire
    with Pair nf show ?thesis
      by (auto simp: firesCheck_def split: option.splits task.splits)
  qed
qed

lemma step_blocklyKey_cases:
  "blocklyKey (step ctx e s) \<noteq> blocklyKey s \<Longrightarrow>
     \<exists>s'. step ctx e s = commit ctx s s' \<and> blocklyKey s' = blocklyKey s + 1
        \<and> timers s' = timers s \<and> nextTimerId s' = nextTimerId s \<and> checkTimer s' = checkTimer s
        \<and> autoSaveInterval s' = autoSaveInterval s \<and> clock s' = clock s
        \<and> workspaceRef s' = workspaceRef s"
proof (cases e)
  case (Pair pg ev)
  assume ch: "blocklyKey (step ctx e s) \<noteq> blocklyKey s"
  show ?thesis
  proof (cases ev)
    case Save
    with Pair ch show ?thesis using handleSave_frame [of ctx pg s]
      by (cases "handleSave ctx pg s") (simp_all add: settle_def)
  next
    case (NewProject nm)
    with Pair ch show ?thesis using handleNewProject_frame [of ctx pg nm s]
      by (cases "handleNewProject ctx pg nm s") (simp_all add: settle_def)
  next
    case (OpenProject i)
    with Pair ch show ?thesis using handleOpenProject_frame [of ctx i s]
      by (cases "handleOpenProject ctx i s") (auto simp: settle_def)
  next
    case (ImportProject xml nm brd)
    with Pair ch show ?thesis using handleImportProject_frame [of ctx xml nm brd s]
      by (cases "handleImportProject ctx xml nm brd s") (auto simp: settle_def)
  next
    case (External c)
    with Pair ch show ?thesis by simp
  next
    case (Wait d)
    with Pair ch show ?thesis by simp
  next
    case Fire
    with Pair ch show ?thesis
      by (simp split: option.splits)
  qed
qed

lemma checks_okD:
  "checks_ok s \<Longrightarrow> t \<in> set (timers s) \<Longrightarrow> timer_task t = CheckWorkspace \<Longrightarrow>
     checkTimer s = Some (timer_id t) \<and> period t = None"
  by (simp add: checks_ok_def)

lemma rearmCheck_timers:
  assumes "checks_ok s"
  shows "checkTimers (checkWorkspaceEffect (checkWorkspaceCleanup s)) =
           [\<lparr>timer_id = nextTimerId s, fires_at = clock s + 500, period = None,
             timer_task = CheckWorkspace\<rparr>]"
proof (cases "checkTimer s")
  case None
  with assms have "filter (\<lambda>t. timer_task t = CheckWorkspace) (timers s) = []"
    by (auto simp: checks_ok_def filter_empty_conv)
  with None show ?thesis by (simp add: checkTimers_def effect_defs)
next
  case (Some i)
  with assms have
    "filter (\<lambda>t. timer_task t = CheckWorkspace) (filter (\<lambda>t. timer_id t \<noteq> i) (timers s)) = []"
    by (auto simp: checks_ok_def filter_empty_conv)
  with Some show ?thesis by (simp add: checkTimers_def effect_defs)
qed

lemma rearmAuto_checkTimers:
  assumes "ids_ok s" and "checks_ok s"
  shows "checkTimers (autoSaveEffect (autoSaveCleanup s)) = checkTimers s"
proof (cases "autoSaveInterval s")
  case None
  then show ?thesis by (simp add: checkTimers_def effect_defs)
next
  case (Some j)
  have "filter (\<lambda>t. timer_task t = CheckWorkspace) (filter (\<lambda>t. timer_id t \<noteq> j) (timers s))
        = filter (\<lambda>t. timer_task t = CheckWorkspace) (timers s)"
    unfolding filter_filter
  proof (rule filter_cong [OF refl])
    fix t assume t: "t \<in> set (timers s)"
    show "(timer_id t \<noteq> j \<and> timer_task t = CheckWorkspace) = (timer_task t = CheckWorkspace)"
    proof (cases "timer_task t = CheckWorkspace")
      case True
      from checks_okD [OF assms(2) t True] have "checkTimer s = Some (timer_id t)" by simp
      with assms(1) Some have "timer_id t \<noteq> j" by (auto simp: ids_ok_def)
      with True show ?thesis by simp
    qed simp
  qed
  with Some show ?thesis by (simp add: checkTimers_def effect_defs)
qed

lemma commit_checkTimers:
  assumes "timers_wf s'" and "blocklyKey s' \<noteq> blocklyKey s"
  shows "checkTimers (commit ctx s s') =
           [\<lparr>timer_id = nextTimerId s', fires_at = clock s' + 500, period = None,
             timer_task = CheckWorkspace\<rparr>]"
proof -
  let ?s1 = "checkWorkspaceEffect (checkWorkspaceCleanup s')"
  from assms(1) have ok: "checks_ok s'" by (simp add: timers_wf_def)
  from rearmCheck_wf [OF assms(1)] have ok1: "ids_ok ?s1" "checks_ok ?s1"
    by (simp_all add: timers_wf_def)
  show ?thesis
    using assms(2) rearmCheck_timers [OF ok] rearmAuto_checkTimers [OF ok1]
    by (simp add: commit_def checkDepsChanged_def Let_def)
qed

lemma checks_after_cong:
  "timers s' = timers s \<Longrightarrow> clock s' = clock s \<Longrightarrow> checks_after T s' = checks_after T s"
  by (simp add: checks_after_def)

lemma checks_after_commit: "checks_after T s' \<Longrightarrow> checks_after T (commit ctx s s')"
  by (auto simp: checks_after_def commit_def Let_def effect_defs split: option.splits)

lemma set_refire:
  "u \<in> set (map (\<lambda>t. if timer_id t = i then t\<lparr>fires_at := x\<rparr> else t) ts)
     \<Longrightarrow> u \<in> set ts \<or> (\<exists>t \<in> set ts. timer_id t = i \<and> u = t\<lparr>fires_at := x\<rparr>)"
  by (induction ts) (auto split: if_splits)

lemma checks_after_reschedule:
  assumes wf: "timers_wf s" and tm: "tm \<in> set (timers s)" and ca: "checks_after T s"
  shows "checks_after T (reschedule tm s)"
proof (cases "period tm")
  case None
  with ca show ?thesis
    by (auto simp: checks_after_def reschedule_def clearTimeout_def)
next
  case (Some p)
  from wf have ids: "inj_on timer_id (set (timers s))" and ck: "checks_ok s"
    by (simp_all add: timers_wf_def ids_ok_def distinct_map)
  have "T \<le> fires_at u"
    if u: "u \<in> set (timers (reschedule tm s))" and c: "timer_task u = CheckWorkspace" for u
  proof -
    from u Some have "u \<in> set (map (\<lambda>t. if timer_id t = timer_id tm
        then t\<lparr>fires_at := clock s + p\<rparr> else t) (timers s))"
      by (simp add: reschedule_def)
    from set_refire [OF this] show ?thesis
    proof
      assume "u \<in> set (timers s)"
      with ca c show ?thesis by (simp add: checks_after_def)
    next
      assume "\<exists>t \<in> set (timers s). timer_id t = timer_id tm \<and> u = t\<lparr>fires_at := clock s + p\<rparr>"
      then obtain t where t: "t \<in> set (timers s)" "timer_id t = timer_id tm"
        "u = t\<lparr>fires_at := clock s + p\<rparr>" by blast
      from ids t(1,2) tm have "t = tm" by (auto dest: inj_onD)
      with t(3) c have "timer_task tm = CheckWorkspace" by simp
      from checks_okD [OF ck tm this] Some show ?thesis by simp
    qed
  qed
  with ca show ?thesis by (simp add: checks_after_def)
qed

lemma checks_after_settle:
  assumes "checks_after T s"
    and "\<And>s'. r = Inr s' \<Longrightarrow> timers s' = timers s \<and> clock s' = clock s"
  shows "checks_after T (settle ctx s r)"
proof (cases r)
  case (Inl e)
  with assms(1) show ?thesis by (simp add: settle_def)
next
  case (Inr s')
  with assms(2) have "checks_after T s' = checks_after T s" by (intro checks_after_cong) auto
  with assms(1) Inr show ?thesis by (simp add: settle_def checks_after_commit)
qed

lemma checks_after_step:
  assumes wf: "timers_wf s" and ca: "checks_after T s"
  shows "checks_after T (step ctx e s)"
proof (cases e)
  case (Pair pg ev)
  show ?thesis
  proof (cases ev)
    case Save
    with Pair ca show ?thesis using handleSave_frame [of ctx pg s]
      by (auto intro!: checks_after_settle)
  next
    case (NewProject nm)
    with Pair ca show ?thesis using handleNewProject_frame [of ctx pg nm s]
      by (auto intro!: checks_after_settle)
  next
    case (OpenProject i)
    with Pair ca show ?thesis using handleOpenProject_frame [of ctx i s]
      by (auto intro!: checks_after_settle)
  next
    case (ImportProject xml nm brd)
    with Pair ca show ?thesis using handleImportProject_frame [of ctx xml nm brd s]
      by (auto intro!: checks_after_settle)
  next
    case (External c)
    have "checks_after T (s\<lparr>ctxState := c\<rparr>) = checks_after T s"
      by (intro checks_after_cong) auto
    with Pair External ca show ?thesis by (simp add: checks_after_commit)
  next
    case (Wait d)
    with Pair ca show ?thesis by (simp add: checks_after_def)
  next
    case Fire
    show ?thesis
    proof (cases "nextDue s")
      case None
      with Pair Fire ca show ?thesis by simp
    next
      case (Some tm)
      then have tm: "tm \<in> set (timers s)" by (simp add: nextDue_mem)
      have "checks_after T (runTask ctx pg (timer_task tm) (reschedule tm s))
            = checks_after T (reschedule tm s)"
        by (intro checks_after_cong) simp_all
      with checks_after_reschedule [OF wf tm ca] Pair Fire Some show ?thesis
        by (simp add: checks_after_commit)
    qed
  qed
qed

lemma no_check_before:
  assumes "checks_after T s" and "clock s < T"
  shows "\<not> firesCheck ev s"
proof
  assume "firesCheck ev s"
  then obtain tm where tm: "nextDue s = Some tm" "timer_task tm = CheckWorkspace"
    by (auto simp: firesCheck_def split: event.splits option.splits)
  from nextDue_mem [OF tm(1)] have "tm \<in> set (timers s)" "fires_at tm \<le> clock s" by simp_all
  with assms tm(2) show False by (auto simp: checks_after_def)
qed

lemma run_ref_before:
  assumes "timers_wf s" and "checks_after T s" and "clock (run ctx es s) < T"
  shows "workspaceRef (run ctx es s) = workspaceRef s"
  using assms
proof (induction es arbitrary: s)
  case Nil
  show ?case by simp
next
  case (Cons e es)
  let ?s1 = "step ctx e s"
  from Cons.prems(3) have later: "clock (run ctx es ?s1) < T" by simp
  have "clock s \<le> clock ?s1" by (rule step_clock_mono)
  also have "\<dots> \<le> clock (run ctx es ?s1)" by (rule run_clock_mono)
  finally have now: "clock s < T" using later by simp
  from no_check_before [OF Cons.prems(2) now] have "workspaceRef ?s1 = workspaceRef s"
    by (rule step_workspaceRef)
  moreover from Cons.IH [OF step_wf [OF Cons.prems(1)] checks_after_step [OF Cons.prems(1,2)] later]
  have "workspaceRef (run ctx es ?s1) = workspaceRef ?s1" .
  ultimately show ?case by simp
qed

lemma run_ref_quiet: "quiet ctx es s \<Longrightarrow> workspaceRef (run ctx es s) = workspaceRef s"
proof (induction es arbitrary: s)
  case Nil
  show ?case by simp
next
  case (Cons e es)
  from Cons.prems have "workspaceRef (step ctx e s) = workspaceRef s"
    by (simp add: step_workspaceRef)
  moreover from Cons.prems have "workspaceRef (run ctx es (step ctx e s)) = workspaceRef (step ctx e s)"
    by (intro Cons.IH) simp
  ultimately show ?case by simp
qed

lemma check_refreshes:
  assumes "nextDue s = Some tm" and "timer_task tm = CheckWorkspace"
    and "container pg" and "mainWorkspace pg = Some w"
  shows "workspaceRef (step ctx (pg, Fire) s) = Some w"
  using assms by (simp add: runTask_def checkWorkspace_def)

section \<open>The auto-save interval\<close>

lemma autoSaveTick_idle: "currentProject ctx (ctxState s) = None \<Longrightarrow> autoSaveTick ctx pg s = s"
  by (simp add: autoSaveTick_def)

lemma autoSaveTick_ctx_cong:
  "ctxState s' = ctxState s \<Longrightarrow> workspaceRef s' = workspaceRef s \<Longrightarrow>
     ctxState (autoSaveTick ctx pg s') = ctxState (autoSaveTick ctx pg s)"
  by (simp add: autoSaveTick_def handleSave_def getWorkspaceXml_def await_def Let_def
      split: sum.splits)

lemma fire_idle:
  assumes "currentProject ctx (ctxState s) = None"
  shows "ctxState (step ctx (pg, Fire) s) = ctxState s"
proof (cases "nextDue s")
  case None
  then show ?thesis by simp
next
  case (Some tm)
  have "ctxState (runTask ctx pg (timer_task tm) (reschedule tm s)) = ctxState s"
  proof (cases "timer_task tm")
    case CheckWorkspace
    then show ?thesis using checkWorkspace_frame [of pg "reschedule tm s"]
      by (simp add: runTask_def)
  next
    case AutoSave
    from assms have "autoSaveTick ctx pg (reschedule tm s) = reschedule tm s"
      by (intro autoSaveTick_idle) simp
    with AutoSave show ?thesis by (simp add: runTask_def)
  qed
  with Some show ?thesis by simp
qed

lemma commit_autoSaveTimers:
  assumes wf: "timers_wf s'" and ch: "autoSaveDepsChanged ctx s s'"
  shows "\<exists>i. nextTimerId s' \<le> i \<and> autoSaveInterval (commit ctx s s') = Some i
           \<and> autoSaveTimers (commit ctx s s') =
               [\<lparr>timer_id = i, fires_at = clock s' + 30000, period = Some 30000,
                 timer_task = AutoSave\<rparr>]"
proof -
  let ?s1 = "if checkDepsChanged s s' then checkWorkspaceEffect (checkWorkspaceCleanup s') else s'"
  have wf1: "timers_wf ?s1" using wf by (simp add: rearmCheck_wf)
  then have ok1: "autosave_ok ?s1" by (simp add: timers_wf_def)
  have n: "nextTimerId s' \<le> nextTimerId ?s1" and c: "clock ?s1 = clock s'"
    by (simp_all add: effect_defs split: option.splits)
  have "commit ctx s s' = autoSaveEffect (autoSaveCleanup ?s1)"
    using ch by (simp add: commit_def Let_def)
  with rearmAuto_timers [OF ok1] n c show ?thesis by auto
qed

lemma step_changes_context:
  assumes wf: "timers_wf s" and ch: "ctxState (step ctx e s) \<noteq> ctxState s"
  shows "\<exists>s'. step ctx e s = commit ctx s s' \<and> timers_wf s' \<and> nextTimerId s' = nextTimerId s
            \<and> clock s' = clock s"
proof (cases e)
  case (Pair pg ev)
  have handler: ?thesis
    if r: "step ctx e s = settle ctx s r"
      and fr: "\<And>s'. r = Inr s' \<Longrightarrow> timers s' = timers s \<and> nextTimerId s' = nextTimerId s
            \<and> checkTimer s' = checkTimer s \<and> autoSaveInterval s' = autoSaveInterval s
            \<and> clock s' = clock s" for r
  proof (cases r)
    case (Inl err)
    with r ch show ?thesis by (simp add: settle_def)
  next
    case (Inr s')
    from fr [OF Inr] have "timers_wf s' = timers_wf s" by (intro timers_wf_cong) simp_all
    with wf fr [OF Inr] r Inr show ?thesis by (auto simp: settle_def)
  qed
  show ?thesis
  proof (cases ev)
    case Save
    with Pair show ?thesis using handleSave_frame [of ctx pg s]
      by (intro handler [of "handleSave ctx pg s"]) auto
  next
    case (NewProject nm)
    with Pair show ?thesis using handleNewProject_frame [of ctx pg nm s]
      by (intro handler [of "handleNewProject ctx pg nm s"]) auto
  next
    case (OpenProject i)
    with Pair show ?thesis using handleOpenProject_frame [of ctx i s]
      by (intro handler [of "handleOpenProject ctx i s"]) auto
  next
    case (ImportProject xml nm brd)
    with Pair show ?thesis using handleImportProject_frame [of ctx xml nm brd s]
      by (intro handler [of "handleImportProject ctx xml nm brd s"]) auto
  next
    case (External c)
    have "timers_wf (s\<lparr>ctxState := c\<rparr>) = timers_wf s" by (intro timers_wf_cong) simp_all
    with wf Pair External show ?thesis by auto
  next
    case (Wait d)
    with Pair ch show ?thesis by simp
  next
    case Fire
    show ?thesis
    proof (cases "nextDue s")
      case None
      with Pair Fire ch show ?thesis by simp
    next
      case (Some tm)
      then have "tm \<in> set (timers s)" by (simp add: nextDue_mem)
      with wf have "timers_wf (runTask ctx pg (timer_task tm) (reschedule tm s))"
        by (simp add: runTask_wf reschedule_wf)
      with Pair Fire Some show ?thesis by auto
    qed
  qed
qed

lemma reschedule_autoSaveTimers:
  assumes wf: "timers_wf s" and tm: "tm \<in> set (timers s)" and tk: "timer_task tm = AutoSave"
  shows "period tm = Some 30000
       \<and> autoSaveTimers (reschedule tm s) = [tm\<lparr>fires_at := clock s + 30000\<rparr>]"
proof -
  from wf have "autosave_ok s" by (simp add: timers_wf_def)
  from autosave_okD [OF this] obtain t where
    t: "autoSaveTimers s = [t]" "period t = Some 30000" by blast
  from tm tk have "tm \<in> set (autoSaveTimers s)" by (simp add: autoSaveTimers_def)
  with t have eq: "tm = t" by simp
  with t have p: "period tm = Some 30000" by simp
  have "autoSaveTimers (reschedule tm s) =
          map (\<lambda>u. if timer_id u = timer_id tm then u\<lparr>fires_at := clock s + 30000\<rparr> else u)
            (autoSaveTimers s)"
    using p by (simp add: reschedule_def autoSaveTimers_def filter_map o_def if_distrib cong: if_cong)
  with t eq p show ?thesis by simp
qed

lemma fire_autosave:
  assumes wf: "timers_wf s" and due: "nextDue s = Some tm" and tk: "timer_task tm = AutoSave"
  shows "period tm = Some 30000
       \<and> ctxState (step ctx (pg, Fire) s) = ctxState (autoSaveTick ctx pg s)
       \<and> map fires_at (autoSaveTimers (step ctx (pg, Fire) s)) = [clock s + 30000]"
proof -
  let ?mid = "autoSaveTick ctx pg (reschedule tm s)"
  from due have tm: "tm \<in> set (timers s)" by (simp add: nextDue_mem)
  from reschedule_autoSaveTimers [OF wf tm tk] have p: "period tm = Some 30000"
    and r: "autoSaveTimers (reschedule tm s) = [tm\<lparr>fires_at := clock s + 30000\<rparr>]" by simp_all
  have st: "step ctx (pg, Fire) s = commit ctx s ?mid"
    using due tk by (simp add: runTask_def)
  have "ctxState ?mid = ctxState (autoSaveTick ctx pg s)"
    by (rule autoSaveTick_ctx_cong) simp_all
  with st have c: "ctxState (step ctx (pg, Fire) s) = ctxState (autoSaveTick ctx pg s)" by simp
  have fr: "timers ?mid = timers (reschedule tm s)" "clock ?mid = clock s"
    "blocklyKey ?mid = blocklyKey s"
    using autoSaveTick_frame [of ctx pg "reschedule tm s"] by simp_all
  have "timers_wf ?mid = timers_wf (reschedule tm s)"
    using autoSaveTick_frame [of ctx pg "reschedule tm s"] by (intro timers_wf_cong) simp_all
  with reschedule_wf [OF wf tm] have wfm: "timers_wf ?mid" by simp
  have "map fires_at (autoSaveTimers (commit ctx s ?mid)) = [clock s + 30000]"
  proof (cases "autoSaveDepsChanged ctx s ?mid")
    case True
    from commit_autoSaveTimers [OF wfm True] fr(2) show ?thesis by auto
  next
    case False
    then have "commit ctx s ?mid = ?mid"
      using fr(3) by (simp add: commit_def checkDepsChanged_def)
    with r fr(1) show ?thesis by (simp add: autoSaveTimers_def)
  qed
  with st p c show ?thesis by simp
qed

section \<open>Reading the workspace\<close>

lemma getWorkspaceXml_None: "workspaceRef s = None \<Longrightarrow> getWorkspaceXml pg s = []"
  by (simp add: getWorkspaceXml_def)

lemma getWorkspaceXml_Some: "workspaceRef s = Some w \<Longrightarrow> getWorkspaceXml pg s = workspaceText pg w"
  by (simp add: getWorkspaceXml_def)

text \<open>
  C8. Reading the workspace document always yields a string: the empty string when no
  handle is held, the serialised document of the held workspace otherwise. The function
  has no failing branch.
\<close>

theorem getWorkspaceXml_total:
  "(workspaceRef s = None \<longrightarrow> getWorkspaceXml pg s = [])
   \<and> (\<forall>w. workspaceRef s = Some w \<longrightarrow> getWorkspaceXml pg s = workspaceText pg w)"
  by (simp add: getWorkspaceXml_def)

theorem getWorkspaceXml_total_witness:
  "getWorkspaceXml no_surface (mount fresh_session) = []
   \<and> getWorkspaceXml surface (checkWorkspace surface (mount fresh_session)) = ''<xml/>''"
proof -
  have a: "workspaceRef (mount fresh_session) = None"
    by (simp add: mount_def autoSaveEffect_def checkWorkspaceEffect_def setInterval_def
        setTimeout_def)
  have b: "workspaceRef (checkWorkspace surface (mount fresh_session)) = Some 7"
    by (simp add: checkWorkspace_def surface_def)
  from getWorkspaceXml_total [of "mount fresh_session" no_surface] a
  have "getWorkspaceXml no_surface (mount fresh_session) = []" by simp
  moreover from getWorkspaceXml_total [of "checkWorkspace surface (mount fresh_session)" surface] b
  have "getWorkspaceXml surface (checkWorkspace surface (mount fresh_session)) = workspaceText surface 7"
    by simp
  ultimately show ?thesis by (simp add: surface_def)
qed

section \<open>Saving\<close>

text \<open>
  C2. When the workspace read yields the empty document, \<^verbatim>\<open>handleSave\<close> resolves
  without calling \<^verbatim>\<open>saveProject\<close>: the whole state, and with it whatever store the
  context holds, is returned as it was, and the page does not re-render differently.
\<close>

theorem handleSave_skips_empty:
  "getWorkspaceXml pg s = [] \<Longrightarrow> handleSave ctx pg s = Inr s \<and> step ctx (pg, Save) s = s"
  by (simp add: handleSave_def settle_def commit_def checkDepsChanged_def autoSaveDepsChanged_def)

theorem handleSave_skips_empty_witness:
  "getWorkspaceXml no_surface (mount blink_session) = []
   \<and> handleSave (ide_spec mint1) no_surface (mount blink_session) = Inr (mount blink_session)
   \<and> step (ide_spec mint1) (no_surface, Save) (mount blink_session) = mount blink_session"
proof -
  have a: "getWorkspaceXml no_surface (mount blink_session) = []"
    by (simp add: getWorkspaceXml_def mount_def autoSaveEffect_def checkWorkspaceEffect_def
        setInterval_def setTimeout_def)
  from handleSave_skips_empty [OF a, of "ide_spec mint1"] a show ?thesis by blast
qed

text \<open>
  C1. A save on an active project, while a workspace handle is held and the workspace
  serialises to a non-empty document, hands the text that \<^verbatim>\<open>getWorkspaceXml\<close> returned
  to \<^verbatim>\<open>saveProject\<close> as it is; with the context of the specification, the store
  record under the active project's id then carries exactly that text as its workspace
  document, and the active project in memory is unchanged.
\<close>

theorem handleSave_roundtrip:
  assumes "active (ctxState s) = Some p" and "workspaceRef s = Some w" and "workspaceText pg w \<noteq> []"
  shows "getWorkspaceXml pg s = workspaceText pg w
     \<and> handleSave ctx pg s =
         await (saveProject ctx (workspaceText pg w) (generatedCode ctx (ctxState s)) (ctxState s))
           (\<lambda>c. Inr (s\<lparr>ctxState := c\<rparr>))
     \<and> (\<exists>s'. handleSave (ide_spec mint) pg s = Inr s'
           \<and> map_option blocklyXml (store (ctxState s') (proj_id p)) = Some (getWorkspaceXml pg s)
           \<and> active (ctxState s') = Some p)"
  using assms
  by (simp add: handleSave_def getWorkspaceXml_def await_def ide_spec_def ctx_saveProject_def
      Let_def)

theorem handleSave_roundtrip_witness:
  "\<exists>s'. handleSave (ide_spec mint1) surface ((mount blink_session)\<lparr>workspaceRef := Some 7\<rparr>) = Inr s'
      \<and> map_option blocklyXml (store (ctxState s') ''p1'') = Some ''<xml/>''"
proof -
  let ?s = "(mount blink_session)\<lparr>workspaceRef := Some 7\<rparr>"
  have a: "active (ctxState ?s) = Some blink"
    by (simp add: mount_def effect_defs blink_session_def)
  have b: "workspaceRef ?s = Some 7" by simp
  have c: "workspaceText surface 7 \<noteq> []" by (simp add: surface_def)
  have d: "proj_id blink = ''p1''" "workspaceText surface 7 = ''<xml/>''"
    by (simp_all add: blink_def surface_def)
  from handleSave_roundtrip [OF a b c, of "ide_spec mint1" mint1]
  show ?thesis unfolding d by metis
qed

section \<open>Opening a project\<close>

text \<open>
  C3. When \<^verbatim>\<open>openProject\<close> rejects, \<^verbatim>\<open>handleOpenProject\<close> rejects with the same
  error and nothing after the \<^verbatim>\<open>await\<close> runs: the whole page state, session included,
  is as before. With the context of the specification, an id the store does not have
  gives \<open>NotFound\<close>.
\<close>

theorem openProject_missing:
  "(openProject ctx i (ctxState s) = Inl e \<longrightarrow>
       handleOpenProject ctx i s = Inl e \<and> step ctx (pg, OpenProject i) s = s)
   \<and> (store (ctxState s) i = None \<longrightarrow>
       handleOpenProject (ide_spec mint) i s = Inl NotFound
       \<and> step (ide_spec mint) (pg, OpenProject i) s = s)"
  by (simp add: handleOpenProject_def await_def settle_def ide_spec_def ctx_openProject_def)

theorem openProject_missing_witness:
  "handleOpenProject (ide_spec mint1) ''missing-id'' (mount blink_session) = Inl NotFound
   \<and> step (ide_spec mint1) (surface, OpenProject ''missing-id'') (mount blink_session)
       = mount blink_session"
proof -
  have "store (ctxState (mount blink_session)) ''missing-id'' = None"
    by (simp add: mount_def effect_defs blink_session_def)
  with openProject_missing [of "ide_spec mint1" "''missing-id''" "mount blink_session" NotFound surface mint1]
  show ?thesis by blast
qed

text \<open>
  C7. When \<^verbatim>\<open>openProject\<close> resolves, \<^verbatim>\<open>handleOpenProject\<close> calls
  \<^verbatim>\<open>addConsoleMessage\<close> once, with level \<^verbatim>\<open>info\<close>, on the state
  \<^verbatim>\<open>openProject\<close> produced. With the context of the specification, the active
  project is the fetched project and the console has grown by exactly that one message.
\<close>

theorem openProject_success:
  "(openProject ctx i (ctxState s) = Inr c \<longrightarrow>
      handleOpenProject ctx i s =
        Inr (s\<lparr>ctxState := addConsoleMessage ctx ''info'' ''Proyecto cargado correctamente'' c,
               blocklyKey := blocklyKey s + 1\<rparr>))
   \<and> (store (ctxState s) i = Some p \<longrightarrow>
        (\<exists>s'. handleOpenProject (ide_spec mint) i s = Inr s'
           \<and> active (ctxState s') = Some p
           \<and> console (ctxState s') =
               console (ctxState s) @ [(''info'', ''Proyecto cargado correctamente'')]))"
  by (simp add: handleOpenProject_def await_def ide_spec_def ctx_openProject_def
      ctx_addConsoleMessage_def)

theorem openProject_success_witness:
  "\<exists>s'. handleOpenProject (ide_spec mint1) ''p1'' (mount (blink_session\<lparr>active := None\<rparr>)) = Inr s'
      \<and> active (ctxState s') = Some blink
      \<and> console (ctxState s') = [(''info'', ''Proyecto cargado correctamente'')]"
proof -
  let ?s = "mount (blink_session\<lparr>active := None\<rparr>)"
  have a: "store (ctxState ?s) ''p1'' = Some blink"
    by (simp add: mount_def effect_defs blink_session_def)
  have b: "console (ctxState ?s) = []"
    by (simp add: mount_def effect_defs blink_session_def fresh_session_def)
  from openProject_success [of "ide_spec mint1" "''p1''" ?s fresh_session blink mint1] a
  show ?thesis unfolding b by simp
qed

section \<open>Creating a project\<close>

text \<open>
  C9. When the workspace read yields the empty document, \<^verbatim>\<open>handleNewProject\<close> still
  calls \<^verbatim>\<open>createNewProject\<close>, passing the empty string as the workspace document,
  and its outcome is what \<^verbatim>\<open>createNewProject\<close> produces, whereas \<^verbatim>\<open>handleSave\<close>
  in the same state resolves without calling anything.
\<close>

theorem handleNewProject_empty_document:
  "getWorkspaceXml pg s = [] \<Longrightarrow>
     handleNewProject ctx pg nm s =
       await (createNewProject ctx nm [] (generatedCode ctx (ctxState s)) (ctxState s))
         (\<lambda>c. Inr (s\<lparr>ctxState := c\<rparr>))
     \<and> handleSave ctx pg s = Inr s"
  by (simp add: handleNewProject_def handleSave_def)

theorem handleNewProject_empty_document_witness:
  "getWorkspaceXml no_surface (mount fresh_session) = []
   \<and> handleSave (ide_spec mint1) no_surface (mount fresh_session) = Inr (mount fresh_session)
   \<and> (\<exists>s'. handleNewProject (ide_spec mint1) no_surface ''Blink'' (mount fresh_session) = Inr s'
         \<and> map_option blocklyXml (store (ctxState s') ''p1'') = Some [])"
proof -
  let ?s = "mount fresh_session"
  have a: "getWorkspaceXml no_surface ?s = []"
    by (simp add: getWorkspaceXml_def mount_def effect_defs)
  have c: "ctxState ?s = fresh_session"
    by (simp add: mount_def effect_defs)
  have "createNewProject (ide_spec mint1) ''Blink'' [] (generatedCode (ide_spec mint1) (ctxState ?s))
          (ctxState ?s)
        = Inr (fresh_session\<lparr>active := Some (blink\<lparr>blocklyXml := []\<rparr>),
                 store := [''p1'' \<mapsto> blink\<lparr>blocklyXml := []\<rparr>],
                 oplog := [StoreCreate (blink\<lparr>blocklyXml := []\<rparr>)]\<rparr>)"
    unfolding c
    by (simp add: ide_spec_def ctx_createNewProject_def fresh_session_def mint1_def blink_def
        Let_def)
  with handleNewProject_empty_document [OF a, of "ide_spec mint1" "''Blink''"] a
  show ?thesis by (simp add: await_def)
qed

text \<open>
  With the context of the specification the project so created is active and stored, and
  its workspace document is empty.
\<close>

lemma handleNewProject_empty_persisted:
  "getWorkspaceXml pg s = [] \<Longrightarrow>
     \<exists>s' p. handleNewProject (ide_spec mint) pg nm s = Inr s'
        \<and> active (ctxState s') = Some p \<and> blocklyXml p = [] \<and> proj_name p = nm
        \<and> store (ctxState s') (proj_id p) = Some p"
  by (simp add: handleNewProject_def await_def ide_spec_def ctx_createNewProject_def Let_def)

section \<open>The active project after a sequence of create and open calls\<close>

lemma store_wf_update:
  "store_wf st \<Longrightarrow> proj_id p = k \<Longrightarrow> store_wf (st(k \<mapsto> p))"
  by (simp add: store_wf_def)

lemma step_create_open:
  assumes "createOrOpen e" and "store_wf (store (ctxState s))"
  shows "activeId (step (ide_spec mint) e s) =
           (case establishes mint (ctxState s) (snd e) of Some i \<Rightarrow> Some i | None \<Rightarrow> activeId s)
         \<and> store_wf (store (ctxState (step (ide_spec mint) e s)))"
proof (cases e)
  case (Pair pg ev)
  show ?thesis
  proof (cases ev)
    case (NewProject nm)
    with Pair assms(2) show ?thesis
      by (simp add: settle_def handleNewProject_def await_def ide_spec_def ctx_createNewProject_def
          Let_def activeId_def store_wf_update)
  next
    case (OpenProject i)
    show ?thesis
    proof (cases "store (ctxState s) i")
      case None
      with Pair OpenProject assms(2) show ?thesis
        by (simp add: settle_def handleOpenProject_def await_def ide_spec_def ctx_openProject_def)
    next
      case (Some p)
      with assms(2) have "proj_id p = i" by (simp add: store_wf_def)
      with Some Pair OpenProject assms(2) show ?thesis
        by (simp add: settle_def handleOpenProject_def await_def ide_spec_def ctx_openProject_def
            ctx_addConsoleMessage_def activeId_def)
    qed
  qed (use Pair assms(1) in \<open>simp_all add: createOrOpen_def\<close>)
qed

lemma run_create_open:
  "list_all createOrOpen es \<Longrightarrow> store_wf (store (ctxState s)) \<Longrightarrow>
     activeId (run (ide_spec mint) es s) = lastEstablished mint es s (activeId s)"
proof (induction es arbitrary: s)
  case Nil
  show ?case by simp
next
  case (Cons e es)
  from Cons.prems have e: "createOrOpen e" and es: "list_all createOrOpen es" by simp_all
  from step_create_open [OF e Cons.prems(2), of mint]
  have a: "activeId (step (ide_spec mint) e s) =
           (case establishes mint (ctxState s) (snd e) of Some i \<Rightarrow> Some i | None \<Rightarrow> activeId s)"
    and w: "store_wf (store (ctxState (step (ide_spec mint) e s)))" by simp_all
  from Cons.IH [OF es w] a show ?case by simp
qed

text \<open>
  C4. The session holds the active project in a single optional slot, so there is at most
  one. After every prefix of a sequence of create and open calls, started in a state
  whose store files each record under its own id, the id of the active project is the id
  established by the most recently completed call (the initial one if no call has
  completed).
\<close>

theorem active_is_last_established:
  assumes "list_all createOrOpen es" and "store_wf (store (ctxState s))"
  shows "\<forall>n. activeId (run (ide_spec mint) (take n es) s)
              = lastEstablished mint (take n es) s (activeId s)"
proof
  fix n
  have "set (take n es) \<subseteq> set es" by (rule set_take_subset)
  with assms(1) have "list_all createOrOpen (take n es)"
    by (auto simp: list_all_iff)
  from run_create_open [OF this assms(2)] show
    "activeId (run (ide_spec mint) (take n es) s) = lastEstablished mint (take n es) s (activeId s)" .
qed

theorem active_is_last_established_witness:
  "activeId (run (ide_spec mint1)
      [(no_surface, NewProject ''Blink''), (no_surface, OpenProject ''missing-id''),
       (no_surface, NewProject ''Second'')] (mount fresh_session)) = Some ''p2''
   \<and> activeId (run (ide_spec mint1)
      [(no_surface, NewProject ''Blink''), (no_surface, OpenProject ''missing-id'')]
      (mount fresh_session)) = Some ''p1''"
proof -
  let ?e1 = "(no_surface, NewProject ''Blink'')"
  let ?e2 = "(no_surface, OpenProject ''missing-id'')"
  let ?e3 = "(no_surface, NewProject ''Second'')"
  let ?es = "[?e1, ?e2, ?e3]"
  let ?s = "mount fresh_session"
  define S1 where "S1 = step (ide_spec mint1) ?e1 ?s"
  have a: "list_all createOrOpen ?es" by (simp add: createOrOpen_def)
  have c: "ctxState ?s = fresh_session" by (simp add: mount_def effect_defs)
  have b: "store_wf (store (ctxState ?s))"
    unfolding c by (simp add: fresh_session_def store_wf_def)
  have x: "getWorkspaceXml no_surface ?s = []"
    by (simp add: getWorkspaceXml_def mount_def effect_defs)
  have cr: "ctx_createNewProject mint1 ''Blink'' [] (generated fresh_session) fresh_session
      = Inr (fresh_session\<lparr>active := Some (blink\<lparr>blocklyXml := []\<rparr>),
                 store := [''p1'' \<mapsto> blink\<lparr>blocklyXml := []\<rparr>],
                 oplog := [StoreCreate (blink\<lparr>blocklyXml := []\<rparr>)]\<rparr>)"
    by (simp add: ctx_createNewProject_def Let_def fresh_session_def mint1_def blink_def)
  have s1: "ctxState S1
      = fresh_session\<lparr>active := Some (blink\<lparr>blocklyXml := []\<rparr>),
                 store := [''p1'' \<mapsto> blink\<lparr>blocklyXml := []\<rparr>],
                 oplog := [StoreCreate (blink\<lparr>blocklyXml := []\<rparr>)]\<rparr>"
    unfolding S1_def
    by (simp add: settle_def handleNewProject_def x await_def c ide_spec_def cr)
  have s2: "step (ide_spec mint1) ?e2 S1 = S1"
    by (simp add: settle_def handleOpenProject_def await_def ide_spec_def ctx_openProject_def s1)
  have m1: "mint1 (store fresh_session) = ''p1''"
    by (simp add: mint1_def fresh_session_def)
  have m2: "mint1 (store (ctxState S1)) = ''p2''"
    unfolding s1 by (simp add: mint1_def)
  have m3: "store (ctxState S1) ''missing-id'' = None"
    unfolding s1 by (simp add: fresh_session_def)
  have l3: "lastEstablished mint1 ?es ?s (activeId ?s) = Some ''p2''"
    unfolding lastEstablished.simps S1_def [symmetric] s2 c snd_conv establishes.simps m1 m2 m3
    by simp
  have l2: "lastEstablished mint1 [?e1, ?e2] ?s (activeId ?s) = Some ''p1''"
    unfolding lastEstablished.simps S1_def [symmetric] s2 c snd_conv establishes.simps m1 m2 m3
    by simp
  have t: "take 3 ?es = ?es" "take 2 ?es = [?e1, ?e2]" by simp_all
  from active_is_last_established [OF a b, of mint1]
  have "activeId (run (ide_spec mint1) (take 3 ?es) ?s) = lastEstablished mint1 (take 3 ?es) ?s (activeId ?s)"
    and "activeId (run (ide_spec mint1) (take 2 ?es) ?s) = lastEstablished mint1 (take 2 ?es) ?s (activeId ?s)"
    by blast+
  then show ?thesis unfolding t l3 l2 by blast
qed

section \<open>Re-mounting the editing surface\<close>

text \<open>
  C10. Whenever a step changes the remount counter, the timer table afterwards holds
  exactly one delayed check, due 500 ms after the step; every workspace read made before
  that time, or later as long as no delayed check has run, goes through the handle held
  before the re-mount and returns the text of that workspace (or the empty document when
  none was held), not that of the page's main workspace, whatever else happens in between;
  and when a delayed check runs and finds the container and a main workspace, the handle
  becomes that workspace.
\<close>

theorem remount_delayed_check:
  assumes "timers_wf s" and "blocklyKey (step ctx e s) \<noteq> blocklyKey s"
  shows "checkTimers (step ctx e s) =
           [\<lparr>timer_id = nextTimerId s, fires_at = clock s + 500, period = None,
             timer_task = CheckWorkspace\<rparr>]
       \<and> (\<forall>es pg. clock (run ctx es (step ctx e s)) < clock s + 500
                   \<or> quiet ctx es (step ctx e s) \<longrightarrow>
              workspaceRef (run ctx es (step ctx e s)) = workspaceRef s
              \<and> getWorkspaceXml pg (run ctx es (step ctx e s)) =
                  (case workspaceRef s of Some w \<Rightarrow> workspaceText pg w | None \<Rightarrow> []))
       \<and> (\<forall>s2 tm pg w. nextDue s2 = Some tm \<and> timer_task tm = CheckWorkspace
              \<and> container pg \<and> mainWorkspace pg = Some w \<longrightarrow>
              workspaceRef (step ctx (pg, Fire) s2) = Some w)"
proof -
  let ?s1 = "step ctx e s"
  from step_blocklyKey_cases [OF assms(2)] obtain s' where
    s': "?s1 = commit ctx s s'" "blocklyKey s' = blocklyKey s + 1" "timers s' = timers s"
      "nextTimerId s' = nextTimerId s" "checkTimer s' = checkTimer s"
      "autoSaveInterval s' = autoSaveInterval s" "clock s' = clock s"
      "workspaceRef s' = workspaceRef s"
    by blast
  have "timers_wf s' = timers_wf s" using s' by (intro timers_wf_cong) simp_all
  with assms(1) have wf': "timers_wf s'" by simp
  have key: "blocklyKey s' \<noteq> blocklyKey s" using s'(2) by simp
  have one: "checkTimers ?s1 =
           [\<lparr>timer_id = nextTimerId s, fires_at = clock s + 500, period = None,
             timer_task = CheckWorkspace\<rparr>]"
    using commit_checkTimers [OF wf' key, of ctx] s' by simp
  have ref1: "workspaceRef ?s1 = workspaceRef s" using s' by simp
  have clk1: "clock ?s1 = clock s" using s' by simp
  have "\<forall>t \<in> set (checkTimers ?s1). clock s + 500 \<le> fires_at t"
    unfolding one by simp
  then have ca: "checks_after (clock s + 500) ?s1"
    by (auto simp: checks_after_def clk1 checkTimers_def)
  have wf1: "timers_wf ?s1" by (rule step_wf [OF assms(1)])
  have reads: "workspaceRef (run ctx es ?s1) = workspaceRef s
              \<and> getWorkspaceXml pg (run ctx es ?s1) =
                  (case workspaceRef s of Some w \<Rightarrow> workspaceText pg w | None \<Rightarrow> [])"
    if "clock (run ctx es ?s1) < clock s + 500 \<or> quiet ctx es ?s1" for es pg
  proof -
    from that have "workspaceRef (run ctx es ?s1) = workspaceRef ?s1"
    proof
      assume "clock (run ctx es ?s1) < clock s + 500"
      then show ?thesis by (rule run_ref_before [OF wf1 ca])
    next
      assume "quiet ctx es ?s1"
      then show ?thesis by (rule run_ref_quiet)
    qed
    with ref1 show ?thesis by (simp add: getWorkspaceXml_def)
  qed
  from one reads check_refreshes show ?thesis by blast
qed

text \<open>
  The run below mounts the page, lets the first check take the handle 7, and then opens
  a project, which re-mounts the surface; the new surface's workspace is 8. Reads made
  499 ms and 700 ms after the re-mount, the check not having run, still yield the
  document of workspace 7; once the check has run the handle is 8 and the read yields the
  new document.
\<close>

theorem remount_delayed_check_witness:
  "checkTimers (step (ide_spec mint1) (new_surface, OpenProject ''p1'')
      (run (ide_spec mint1) [(surface, Wait 500), (surface, Fire)] (mount blink_session))) =
     [\<lparr>timer_id = 2, fires_at = 1000, period = None, timer_task = CheckWorkspace\<rparr>]
   \<and> workspaceRef (run (ide_spec mint1) [(surface, Wait 500), (surface, Fire)] (mount blink_session))
       = Some 7
   \<and> getWorkspaceXml new_surface
        (run (ide_spec mint1) [(new_surface, Wait 499), (new_surface, Save)]
          (step (ide_spec mint1) (new_surface, OpenProject ''p1'')
            (run (ide_spec mint1) [(surface, Wait 500), (surface, Fire)] (mount blink_session))))
       = ''<old/>''
   \<and> getWorkspaceXml new_surface
        (run (ide_spec mint1) [(new_surface, Wait 700), (new_surface, Save)]
          (step (ide_spec mint1) (new_surface, OpenProject ''p1'')
            (run (ide_spec mint1) [(surface, Wait 500), (surface, Fire)] (mount blink_session))))
       = ''<old/>''
   \<and> workspaceRef
        (step (ide_spec mint1) (new_surface, Fire)
          (run (ide_spec mint1) [(new_surface, Wait 500)]
            (step (ide_spec mint1) (new_surface, OpenProject ''p1'')
              (run (ide_spec mint1) [(surface, Wait 500), (surface, Fire)] (mount blink_session)))))
       = Some 8
   \<and> getWorkspaceXml new_surface
        (step (ide_spec mint1) (new_surface, Fire)
          (run (ide_spec mint1) [(new_surface, Wait 500)]
            (step (ide_spec mint1) (new_surface, OpenProject ''p1'')
              (run (ide_spec mint1) [(surface, Wait 500), (surface, Fire)] (mount blink_session)))))
       = ''<new/>''"
proof -
  let ?ctx = "ide_spec mint1"
  define S0 where "S0 = run ?ctx [(surface, Wait 500), (surface, Fire)] (mount blink_session)"
  define S1 where "S1 = step ?ctx (new_surface, OpenProject ''p1'') S0"
  have m: "mount blink_session =
     \<lparr>ctxState = blink_session, workspaceRef = None, blocklyKey = 0, clock = 0,
      timers = [\<lparr>timer_id = 0, fires_at = 500, period = None, timer_task = CheckWorkspace\<rparr>,
                \<lparr>timer_id = 1, fires_at = 30000, period = Some 30000, timer_task = AutoSave\<rparr>],
      nextTimerId = 2, checkTimer = Some 0, autoSaveInterval = Some 1\<rparr>"
    by (simp add: mount_def effect_defs)
  have S0: "S0 = \<lparr>ctxState = blink_session, workspaceRef = Some 7, blocklyKey = 0, clock = 500,
      timers = [\<lparr>timer_id = 1, fires_at = 30000, period = Some 30000, timer_task = AutoSave\<rparr>],
      nextTimerId = 2, checkTimer = Some 0, autoSaveInterval = Some 1\<rparr>"
    unfolding S0_def m
    by (simp add: nextDue_def reschedule_def clearTimeout_def runTask_def checkWorkspace_def
        surface_def commit_def checkDepsChanged_def autoSaveDepsChanged_def)
  have o: "ctx_openProject ''p1'' blink_session
      = Inr (blink_session\<lparr>active := Some blink, oplog := [StoreFetch ''p1'']\<rparr>)"
    by (simp add: ctx_openProject_def blink_session_def fresh_session_def)
  have a1: "active blink_session = Some blink"
    by (simp add: blink_session_def)
  have key: "blocklyKey S1 = 1" and clk: "clock S1 = 500" and ref: "workspaceRef S1 = Some 7"
    and tms: "timers S1 = [\<lparr>timer_id = 1, fires_at = 30000, period = Some 30000, timer_task = AutoSave\<rparr>,
                \<lparr>timer_id = 2, fires_at = 1000, period = None, timer_task = CheckWorkspace\<rparr>]"
    unfolding S1_def S0
    by (simp_all add: settle_def handleOpenProject_def await_def ide_spec_def o a1
        ctx_addConsoleMessage_def commit_def checkDepsChanged_def autoSaveDepsChanged_def
        effect_defs)
  have wf: "timers_wf S0" unfolding S0_def by (rule run_wf [OF mount_wf])
  have k0: "blocklyKey S0 = 0" "clock S0 = 500" "nextTimerId S0 = 2" "workspaceRef S0 = Some 7"
    by (simp_all add: S0)
  have ch: "blocklyKey (step ?ctx (new_surface, OpenProject ''p1'') S0) \<noteq> blocklyKey S0"
    using key k0 by (simp add: S1_def)
  have old: "workspaceText new_surface 7 = ''<old/>''" and new: "workspaceText new_surface 8 = ''<new/>''"
    by (simp_all add: new_surface_def)
  note main = remount_delayed_check [OF wf ch, folded S1_def, unfolded k0]
  have one: "checkTimers S1 =
      [\<lparr>timer_id = 2, fires_at = 1000, period = None, timer_task = CheckWorkspace\<rparr>]"
    using main by simp
  have "clock (run ?ctx [(new_surface, Wait 499), (new_surface, Save)] S1) < 500 + 500"
    using ref clk
    by (simp add: handleSave_def getWorkspaceXml_def settle_def await_def Let_def ide_spec_def
        ctx_saveProject_def split: option.splits)
  with main have "getWorkspaceXml new_surface (run ?ctx [(new_surface, Wait 499), (new_surface, Save)] S1)
      = (case Some 7 of Some w \<Rightarrow> workspaceText new_surface w | None \<Rightarrow> [])"
    by blast
  then have two: "getWorkspaceXml new_surface
      (run ?ctx [(new_surface, Wait 499), (new_surface, Save)] S1) = ''<old/>''"
    by (simp add: old)
  have "quiet ?ctx [(new_surface, Wait 700), (new_surface, Save)] S1"
    by (simp add: firesCheck_def del: step.simps)
  with main have "getWorkspaceXml new_surface (run ?ctx [(new_surface, Wait 700), (new_surface, Save)] S1)
      = (case Some 7 of Some w \<Rightarrow> workspaceText new_surface w | None \<Rightarrow> [])"
    by blast
  then have late: "getWorkspaceXml new_surface
      (run ?ctx [(new_surface, Wait 700), (new_surface, Save)] S1) = ''<old/>''"
    by (simp add: old)
  let ?s2 = "run ?ctx [(new_surface, Wait 500)] S1"
  have due: "nextDue ?s2 = Some \<lparr>timer_id = 2, fires_at = 1000, period = None, timer_task = CheckWorkspace\<rparr>"
    by (simp add: nextDue_def tms clk)
  have "timer_task \<lparr>timer_id = 2, fires_at = 1000, period = None, timer_task = CheckWorkspace\<rparr>
      = CheckWorkspace" "container new_surface" "mainWorkspace new_surface = Some 8"
    by (simp_all add: new_surface_def)
  with main due have three: "workspaceRef (step ?ctx (new_surface, Fire) ?s2) = Some 8"
    by blast
  then have four: "getWorkspaceXml new_surface (step ?ctx (new_surface, Fire) ?s2) = ''<new/>''"
    unfolding getWorkspaceXml_def by (simp add: new)
  from one k0(4) two late three four show ?thesis unfolding S1_def S0_def by blast
qed

section \<open>Auto-save\<close>

text \<open>
  C5. On a tick of the auto-save interval with an active project, the callback runs
  \<^verbatim>\<open>handleSave\<close> and consults nothing else: with a handle and a non-empty document,
  \<^verbatim>\<open>saveProject\<close> is applied to the context state whatever that state is, so a
  project that was saved a moment ago is saved again. The interval that fires has the
  period 30000 ms, and after the tick the one auto-save timer is due 30000 ms later.
\<close>

theorem autosave_tick_saves:
  assumes "currentProject ctx (ctxState s) \<noteq> None"
  shows "autoSaveTick ctx pg s = (case handleSave ctx pg s of Inl e \<Rightarrow> s | Inr s' \<Rightarrow> s')
     \<and> (\<forall>w. workspaceRef s = Some w \<and> workspaceText pg w \<noteq> [] \<longrightarrow>
           ctxState (autoSaveTick ctx pg s) =
             (case saveProject ctx (workspaceText pg w) (generatedCode ctx (ctxState s)) (ctxState s) of
                Inl e \<Rightarrow> ctxState s
              | Inr c \<Rightarrow> c))
     \<and> (\<forall>tm. timers_wf s \<and> nextDue s = Some tm \<and> timer_task tm = AutoSave \<longrightarrow>
           period tm = Some 30000
           \<and> ctxState (step ctx (pg, Fire) s) = ctxState (autoSaveTick ctx pg s)
           \<and> map fires_at (autoSaveTimers (step ctx (pg, Fire) s)) = [clock s + 30000])"
proof (intro conjI allI impI)
  from assms show "autoSaveTick ctx pg s = (case handleSave ctx pg s of Inl e \<Rightarrow> s | Inr s' \<Rightarrow> s')"
    by (simp add: autoSaveTick_def)
next
  fix w assume "workspaceRef s = Some w \<and> workspaceText pg w \<noteq> []"
  with assms show "ctxState (autoSaveTick ctx pg s) =
             (case saveProject ctx (workspaceText pg w) (generatedCode ctx (ctxState s)) (ctxState s) of
                Inl e \<Rightarrow> ctxState s
              | Inr c \<Rightarrow> c)"
    by (simp add: autoSaveTick_def handleSave_def getWorkspaceXml_def await_def split: sum.splits)
next
  fix tm assume a: "timers_wf s \<and> nextDue s = Some tm \<and> timer_task tm = AutoSave"
  then have wf: "timers_wf s" and due: "nextDue s = Some tm" and tk: "timer_task tm = AutoSave"
    by simp_all
  note f = fire_autosave [OF wf due tk, of ctx pg]
  from f show "period tm = Some 30000" by simp
  from f show "ctxState (step ctx (pg, Fire) s) = ctxState (autoSaveTick ctx pg s)" by simp
  from f show "map fires_at (autoSaveTimers (step ctx (pg, Fire) s)) = [clock s + 30000]" by simp
qed

theorem autosave_tick_saves_witness:
  "oplog (ctxState (run (ide_spec mint1)
      [(surface, Wait 500), (surface, Fire), (surface, Save), (surface, Wait 29500), (surface, Fire)]
      (mount blink_session)))
     = [StoreUpdate ''p1'' ''<xml/>'' ''void setup(){}'', StoreUpdate ''p1'' ''<xml/>'' ''void setup(){}'']
   \<and> map fires_at (autoSaveTimers (run (ide_spec mint1)
      [(surface, Wait 500), (surface, Fire), (surface, Save), (surface, Wait 29500), (surface, Fire)]
      (mount blink_session))) = [60000]"
proof -
  let ?ctx = "ide_spec mint1"
  let ?s = "mount blink_session"
  let ?saved = "blink_session\<lparr>
      store := [''p1'' \<mapsto> blink\<lparr>blocklyXml := ''<xml/>'', proj_code := ''void setup(){}''\<rparr>],
      oplog := [StoreUpdate ''p1'' ''<xml/>'' ''void setup(){}'']\<rparr>"
  define S4 where
    "S4 = run ?ctx [(surface, Wait 500), (surface, Fire), (surface, Save), (surface, Wait 29500)] ?s"
  have m: "?s = \<lparr>ctxState = blink_session, workspaceRef = None, blocklyKey = 0, clock = 0,
      timers = [\<lparr>timer_id = 0, fires_at = 500, period = None, timer_task = CheckWorkspace\<rparr>,
                \<lparr>timer_id = 1, fires_at = 30000, period = Some 30000, timer_task = AutoSave\<rparr>],
      nextTimerId = 2, checkTimer = Some 0, autoSaveInterval = Some 1\<rparr>"
    by (simp add: mount_def effect_defs)
  have a1: "active blink_session = Some blink" "generated blink_session = ''void setup(){}''"
    "proj_id blink = ''p1''" "store blink_session = [''p1'' \<mapsto> blink]" "oplog blink_session = []"
    by (simp_all add: blink_session_def fresh_session_def blink_def)
  have sv: "ctx_saveProject ''<xml/>'' ''void setup(){}'' blink_session = Inr ?saved"
    by (simp add: ctx_saveProject_def a1)
  have S4: "S4 = \<lparr>ctxState = ?saved, workspaceRef = Some 7, blocklyKey = 0, clock = 30000,
      timers = [\<lparr>timer_id = 1, fires_at = 30000, period = Some 30000, timer_task = AutoSave\<rparr>],
      nextTimerId = 2, checkTimer = Some 0, autoSaveInterval = Some 1\<rparr>"
    unfolding S4_def m
    by (simp add: nextDue_def reschedule_def clearTimeout_def runTask_def checkWorkspace_def
        surface_def commit_def checkDepsChanged_def autoSaveDepsChanged_def settle_def
        handleSave_def getWorkspaceXml_def await_def ide_spec_def a1 sv Let_def)
  have wf: "timers_wf S4" unfolding S4_def by (rule run_wf [OF mount_wf])
  have act: "currentProject ?ctx (ctxState S4) \<noteq> None"
    by (simp add: S4 ide_spec_def a1)
  have due: "nextDue S4 = Some \<lparr>timer_id = 1, fires_at = 30000, period = Some 30000, timer_task = AutoSave\<rparr>"
    by (simp add: S4 nextDue_def)
  have ref: "workspaceRef S4 = Some 7 \<and> workspaceText surface 7 \<noteq> []"
    by (simp add: S4 surface_def)
  have sv2: "saveProject ?ctx (workspaceText surface 7) (generatedCode ?ctx (ctxState S4)) (ctxState S4)
      = Inr (?saved\<lparr>oplog := [StoreUpdate ''p1'' ''<xml/>'' ''void setup(){}'',
                                  StoreUpdate ''p1'' ''<xml/>'' ''void setup(){}'']\<rparr>)"
    by (simp add: S4 ide_spec_def surface_def ctx_saveProject_def a1 blink_def)
  note main = autosave_tick_saves [OF act, of surface]
  from main ref have "ctxState (autoSaveTick ?ctx surface S4) =
      (case saveProject ?ctx (workspaceText surface 7) (generatedCode ?ctx (ctxState S4)) (ctxState S4) of
         Inl e \<Rightarrow> ctxState S4 | Inr c \<Rightarrow> c)"
    by blast
  moreover from main wf due have
    "ctxState (step ?ctx (surface, Fire) S4) = ctxState (autoSaveTick ?ctx surface S4)
     \<and> map fires_at (autoSaveTimers (step ?ctx (surface, Fire) S4)) = [clock S4 + 30000]"
    by simp
  ultimately have "oplog (ctxState (step ?ctx (surface, Fire) S4))
      = [StoreUpdate ''p1'' ''<xml/>'' ''void setup(){}'', StoreUpdate ''p1'' ''<xml/>'' ''void setup(){}'']"
    and "map fires_at (autoSaveTimers (step ?ctx (surface, Fire) S4)) = [60000]"
    unfolding sv2 by (simp_all add: S4)
  moreover have "run ?ctx
      [(surface, Wait 500), (surface, Fire), (surface, Save), (surface, Wait 29500), (surface, Fire)] ?s
      = step ?ctx (surface, Fire) S4"
    unfolding S4_def by (simp del: step.simps)
  ultimately show ?thesis by simp
qed

text \<open>
  C6. Without an active project the interval callback returns the state as it is, and
  running any due timer leaves the context state, and with it the store, untouched.
  Whenever a step changes the active project, the old interval is cleared and the timer
  table afterwards holds exactly one auto-save interval, newly created and due 30000 ms
  after the step.
\<close>

theorem autosave_idle_and_rearm:
  "(currentProject ctx (ctxState s) = None \<longrightarrow>
      autoSaveTick ctx pg s = s \<and> ctxState (step ctx (pg, Fire) s) = ctxState s)
   \<and> (timers_wf s \<and> currentProject ctx (ctxState (step ctx e s)) \<noteq> currentProject ctx (ctxState s) \<longrightarrow>
        (\<exists>i. nextTimerId s \<le> i \<and> autoSaveInterval (step ctx e s) = Some i
           \<and> autoSaveTimers (step ctx e s) =
               [\<lparr>timer_id = i, fires_at = clock s + 30000, period = Some 30000,
                 timer_task = AutoSave\<rparr>]))"
proof (intro conjI impI)
  assume "currentProject ctx (ctxState s) = None"
  then show "autoSaveTick ctx pg s = s" by (rule autoSaveTick_idle)
next
  assume "currentProject ctx (ctxState s) = None"
  then show "ctxState (step ctx (pg, Fire) s) = ctxState s" by (rule fire_idle)
next
  assume a: "timers_wf s \<and> currentProject ctx (ctxState (step ctx e s)) \<noteq> currentProject ctx (ctxState s)"
  then have wf: "timers_wf s" and ch: "ctxState (step ctx e s) \<noteq> ctxState s" by auto
  from step_changes_context [OF wf ch] obtain s' where
    s': "step ctx e s = commit ctx s s'" "timers_wf s'" "nextTimerId s' = nextTimerId s"
      "clock s' = clock s"
    by blast
  from a s'(1) have "autoSaveDepsChanged ctx s s'" by (simp add: autoSaveDepsChanged_def)
  from commit_autoSaveTimers [OF s'(2) this] s'
  show "\<exists>i. nextTimerId s \<le> i \<and> autoSaveInterval (step ctx e s) = Some i
           \<and> autoSaveTimers (step ctx e s) =
               [\<lparr>timer_id = i, fires_at = clock s + 30000, period = Some 30000,
                 timer_task = AutoSave\<rparr>]"
    by simp
qed

theorem autosave_idle_and_rearm_witness:
  "ctxState (step (ide_spec mint1) (surface, Fire)
      (step (ide_spec mint1) (surface, Wait 30000) (mount fresh_session))) = fresh_session
   \<and> (\<exists>i\<ge>2. autoSaveTimers (step (ide_spec mint1) (no_surface, NewProject ''Blink'')
                     (step (ide_spec mint1) (no_surface, Wait 1000) (mount fresh_session))) =
          [\<lparr>timer_id = i, fires_at = 31000, period = Some 30000, timer_task = AutoSave\<rparr>])"
proof -
  let ?ctx = "ide_spec mint1"
  let ?s = "mount fresh_session"
  let ?sa = "step ?ctx (surface, Wait 30000) ?s"
  let ?sb = "step ?ctx (no_surface, Wait 1000) ?s"
  have c: "ctxState ?s = fresh_session" "workspaceRef ?s = None" "nextTimerId ?s = 2" "clock ?s = 0"
    by (simp_all add: mount_def effect_defs)
  have none: "currentProject ?ctx fresh_session = None"
    by (simp add: ide_spec_def fresh_session_def)
  have idle: "currentProject ?ctx (ctxState ?sa) = None" using none by (simp add: c)
  have one: "ctxState (step ?ctx (surface, Fire) ?sa) = fresh_session"
    using autosave_idle_and_rearm [of ?ctx ?sa surface] idle by (simp add: c)
  have wf: "timers_wf ?sb" by (rule step_wf [OF mount_wf])
  have fb: "ctxState ?sb = fresh_session" "nextTimerId ?sb = 2" "clock ?sb = 1000"
    "workspaceRef ?sb = None"
    by (simp_all add: c)
  have cr: "ctx_createNewProject mint1 ''Blink'' [] (generated fresh_session) fresh_session
      = Inr (fresh_session\<lparr>active := Some (blink\<lparr>blocklyXml := []\<rparr>),
                 store := [''p1'' \<mapsto> blink\<lparr>blocklyXml := []\<rparr>],
                 oplog := [StoreCreate (blink\<lparr>blocklyXml := []\<rparr>)]\<rparr>)"
    by (simp add: ctx_createNewProject_def Let_def fresh_session_def mint1_def blink_def)
  have "ctxState (step ?ctx (no_surface, NewProject ''Blink'') ?sb)
      = fresh_session\<lparr>active := Some (blink\<lparr>blocklyXml := []\<rparr>),
                 store := [''p1'' \<mapsto> blink\<lparr>blocklyXml := []\<rparr>],
                 oplog := [StoreCreate (blink\<lparr>blocklyXml := []\<rparr>)]\<rparr>"
    by (simp add: settle_def handleNewProject_def getWorkspaceXml_def await_def c ide_spec_def cr)
  then have ch: "currentProject ?ctx (ctxState (step ?ctx (no_surface, NewProject ''Blink'') ?sb))
      \<noteq> currentProject ?ctx (ctxState ?sb)"
    unfolding fb using none by (simp add: ide_spec_def)
  from autosave_idle_and_rearm [of ?ctx ?sb no_surface "(no_surface, NewProject ''Blink'')"] wf ch
  have "\<exists>i. nextTimerId ?sb \<le> i \<and>
      autoSaveTimers (step ?ctx (no_surface, NewProject ''Blink'') ?sb) =
         [\<lparr>timer_id = i, fires_at = clock ?sb + 30000, period = Some 30000, timer_task = AutoSave\<rparr>]"
    by blast
  then have two: "\<exists>i\<ge>2. autoSaveTimers (step ?ctx (no_surface, NewProject ''Blink'') ?sb) =
         [\<lparr>timer_id = i, fires_at = 31000, period = Some 30000, timer_task = AutoSave\<rparr>]"
    unfolding fb by simp
  from one two show ?thesis by blast
qed

end
